theory Spec2Isabelle
  imports Main "HOL-Library.Sublist" "HOL-Library.List_Lexorder"
begin

section \<open>Text, code points and the character tables of the Python runtime\<close>

text \<open>
  A Python \<^verbatim>\<open>str\<close> is a sequence of Unicode code points; it is modelled as a list of
  natural numbers (the code points), so that \<open>length\<close> counts what Python's \<^verbatim>\<open>len\<close>
  counts.  ASCII literals of the scripts are written through \<open>ustr\<close>.
\<close>

type_synonym ustring = "nat list"

definition ustr :: "string \<Rightarrow> ustring" where
  "ustr s = map of_char s"

fun in_ranges :: "nat \<Rightarrow> (nat \<times> nat) list \<Rightarrow> bool" where
  "in_ranges c [] = False"
| "in_ranges c ((lo, hi) # rs) = ((lo \<le> c \<and> c \<le> hi) \<or> in_ranges c rs)"

text \<open>
  The code points for which \<^verbatim>\<open>str.isspace\<close> holds; \<^verbatim>\<open>str.strip()\<close> and the
  regular-expression escape \<^verbatim>\<open>\s\<close> (on \<^verbatim>\<open>str\<close> patterns) both use this table.
\<close>

definition space_ranges :: "(nat \<times> nat) list" where
  "space_ranges =
    [(9, 13), (28, 32), (133, 133), (160, 160), (5760, 5760), (8192, 8202),
     (8232, 8233), (8239, 8239), (8287, 8287), (12288, 12288)]"

definition uni_space :: "nat \<Rightarrow> bool" where
  "uni_space c = in_ranges c space_ranges"

text \<open>
  The decimal digits (general category Nd, Unicode 14) matched by \<^verbatim>\<open>\d\<close> on
  \<^verbatim>\<open>str\<close> patterns and accepted by \<^verbatim>\<open>int()\<close>.  Every block starts at a
  digit zero and its length is a multiple of ten.
\<close>

definition decimal_ranges :: "(nat \<times> nat) list" where
  "decimal_ranges =
    [(48, 57), (1632, 1641), (1776, 1785), (1984, 1993), (2406, 2415),
     (2534, 2543), (2662, 2671), (2790, 2799), (2918, 2927), (3046, 3055),
     (3174, 3183), (3302, 3311), (3430, 3439), (3558, 3567), (3664, 3673),
     (3792, 3801), (3872, 3881), (4160, 4169), (4240, 4249), (6112, 6121),
     (6160, 6169), (6470, 6479), (6608, 6617), (6784, 6793), (6800, 6809),
     (6992, 7001), (7088, 7097), (7232, 7241), (7248, 7257), (42528, 42537),
     (43216, 43225), (43264, 43273), (43472, 43481), (43504, 43513), (43600, 43609),
     (44016, 44025), (65296, 65305), (66720, 66729), (68912, 68921), (69734, 69743),
     (69872, 69881), (69942, 69951), (70096, 70105), (70384, 70393), (70736, 70745),
     (70864, 70873), (71248, 71257), (71360, 71369), (71472, 71481), (71904, 71913),
     (72016, 72025), (72784, 72793), (73040, 73049), (73120, 73129), (92768, 92777),
     (92864, 92873), (93008, 93017), (120782, 120831), (123200, 123209), (123632, 123641),
     (125264, 125273), (130032, 130041)]"

definition uni_decimal :: "nat \<Rightarrow> bool" where
  "uni_decimal c = in_ranges c decimal_ranges"

text \<open>
  A word character (\<^verbatim>\<open>\w\<close>) is an underscore or a code point for which
  \<^verbatim>\<open>str.isalnum\<close> holds: a decimal digit, or a code point that is alphabetic or
  otherwise numeric.  The last table has several hundred blocks and belongs to the
  Python runtime, not to the scripts; it is the parameter \<open>an\<close>.  On ASCII it is
  \<open>ascii_alpha\<close>.
\<close>

definition is_word :: "(nat \<Rightarrow> bool) \<Rightarrow> nat \<Rightarrow> bool" where
  "is_word an c = (an c \<or> uni_decimal c \<or> c = 95)"

definition ascii_alpha :: "nat \<Rightarrow> bool" where
  "ascii_alpha c = ((65 \<le> c \<and> c \<le> 90) \<or> (97 \<le> c \<and> c \<le> 122))"

section \<open>The string methods the scripts call\<close>

definition py_lstrip :: "ustring \<Rightarrow> ustring" where
  "py_lstrip s = dropWhile uni_space s"

definition py_rstrip :: "ustring \<Rightarrow> ustring" where
  "py_rstrip s = rev (dropWhile uni_space (rev s))"

definition py_strip :: "ustring \<Rightarrow> ustring" where
  "py_strip s = py_rstrip (py_lstrip s)"

fun starts_with :: "ustring \<Rightarrow> ustring \<Rightarrow> bool" where
  "starts_with [] s = True"
| "starts_with (p # ps) [] = False"
| "starts_with (p # ps) (c # cs) = (p = c \<and> starts_with ps cs)"

text \<open>
  \<^verbatim>\<open>s.split(sep)\<close> for a non-empty separator: the pieces between the non-overlapping
  occurrences of \<open>sep\<close>, found from the left.  \<open>cur\<close> holds the piece being read.
  (Python raises ValueError on an empty separator; no script passes one, and the model
  then returns the text as one piece.)
\<close>

function split_from :: "ustring \<Rightarrow> ustring \<Rightarrow> ustring \<Rightarrow> ustring list" where
  "split_from sep cur [] = [cur]"
| "split_from sep cur (c # cs) =
     (if sep \<noteq> [] \<and> starts_with sep (c # cs)
      then cur # split_from sep [] (drop (length sep) (c # cs))
      else split_from sep (cur @ [c]) cs)"
  by pat_completeness auto
termination
  by (relation "measure (\<lambda>(sep, cur, s). length s)") (auto simp: neq_Nil_conv)

definition py_split :: "ustring \<Rightarrow> ustring \<Rightarrow> ustring list" where
  "py_split sep s = split_from sep [] s"

section \<open>Regular expressions as the scripts use them\<close>

text \<open>
  Every pattern of the scripts is a sequence of single-character classes, each taken
  once or under a greedy quantifier (\<^verbatim>\<open>+\<close>, \<^verbatim>\<open>*\<close>, \<^verbatim>\<open>?\<close>), of the
  zero-width assertions \<^verbatim>\<open>^\<close>, \<^verbatim>\<open>$\<close>, \<^verbatim>\<open>\b\<close>, and of one optional literal
  group.  A pattern is therefore a list of atoms.  A capturing group never changes what
  a pattern matches, and in the verse patterns group 1 encloses everything after
  \<^verbatim>\<open>^\<close>, so \<^verbatim>\<open>match.group(1)\<close> is the matched text.
\<close>

datatype cset = Chr nat | Range nat nat | CatDigit | CatSpace

fun in_cset :: "cset \<Rightarrow> nat \<Rightarrow> bool" where
  "in_cset (Chr k) c = (c = k)"
| "in_cset (Range lo hi) c = (lo \<le> c \<and> c \<le> hi)"
| "in_cset CatDigit c = uni_decimal c"
| "in_cset CatSpace c = uni_space c"

definition in_class :: "cset list \<Rightarrow> nat \<Rightarrow> bool" where
  "in_class cl c = list_ex (\<lambda>k. in_cset k c) cl"

datatype atom =
    OneOf "cset list"
  | Many1 "cset list"
  | Many0 "cset list"
  | Maybe "cset list"
  | MaybeLit ustring
  | AtBegin
  | AtEnd
  | AtBoundary "nat \<Rightarrow> bool"

type_synonym pattern = "atom list"

definition word_at :: "(nat \<Rightarrow> bool) \<Rightarrow> nat option \<Rightarrow> bool" where
  "word_at an p = (case p of None \<Rightarrow> False | Some c \<Rightarrow> is_word an c)"

text \<open>
  The backtracking matcher: \<open>rmatch p prev s\<close> tries \<open>p\<close> at the position whose
  remaining text is \<open>s\<close> and whose preceding character is \<open>prev\<close> (\<open>None\<close> at the
  beginning of the text), and returns the text matched by the first alternative that
  succeeds, a greedy quantifier trying the longer repetition first.  \<^verbatim>\<open>$\<close> holds at
  the end of the text and before a final newline; \<^verbatim>\<open>\b\<close> holds where exactly one
  of the two neighbours is a word character.
\<close>

function rmatch :: "pattern \<Rightarrow> nat option \<Rightarrow> ustring \<Rightarrow> ustring option" where
  "rmatch [] prev s = Some []"
| "rmatch (OneOf cl # r) prev [] = None"
| "rmatch (OneOf cl # r) prev (c # cs) =
     (if in_class cl c then map_option (Cons c) (rmatch r (Some c) cs) else None)"
| "rmatch (Many1 cl # r) prev [] = None"
| "rmatch (Many1 cl # r) prev (c # cs) =
     (if in_class cl c then map_option (Cons c) (rmatch (Many0 cl # r) (Some c) cs) else None)"
| "rmatch (Many0 cl # r) prev [] = rmatch r prev []"
| "rmatch (Many0 cl # r) prev (c # cs) =
     (if in_class cl c
      then (case rmatch (Many0 cl # r) (Some c) cs of
              Some m \<Rightarrow> Some (c # m)
            | None \<Rightarrow> rmatch r prev (c # cs))
      else rmatch r prev (c # cs))"
| "rmatch (Maybe cl # r) prev [] = rmatch r prev []"
| "rmatch (Maybe cl # r) prev (c # cs) =
     (if in_class cl c
      then (case rmatch r (Some c) cs of
              Some m \<Rightarrow> Some (c # m)
            | None \<Rightarrow> rmatch r prev (c # cs))
      else rmatch r prev (c # cs))"
| "rmatch (MaybeLit w # r) prev s =
     (if w \<noteq> [] \<and> starts_with w s
      then (case rmatch r (Some (last w)) (drop (length w) s) of
              Some m \<Rightarrow> Some (w @ m)
            | None \<Rightarrow> rmatch r prev s)
      else rmatch r prev s)"
| "rmatch (AtBegin # r) prev s = (if prev = None then rmatch r prev s else None)"
| "rmatch (AtEnd # r) prev s = (if s = [] \<or> s = [10] then rmatch r prev s else None)"
| "rmatch (AtBoundary an # r) prev s =
     (if word_at an prev \<noteq> word_at an (case s of [] \<Rightarrow> None | c # cs \<Rightarrow> Some c)
      then rmatch r prev s else None)"
  by pat_completeness auto
termination
  by (relation "measure (\<lambda>(p, prev, s). length p + length s)") auto

text \<open>\<^verbatim>\<open>re.match(p, s)\<close>: the pattern tried at the beginning of \<open>s\<close> only.\<close>

definition re_match :: "pattern \<Rightarrow> ustring \<Rightarrow> ustring option" where
  "re_match p s = rmatch p None s"

text \<open>
  \<^verbatim>\<open>re.search(p, s)\<close>: the pattern tried at every position from the left, the end of
  the text included; the result is \<^verbatim>\<open>match.start()\<close> of the first success.
  \<open>search_from p prev s i\<close> is the scan standing at offset \<open>i\<close>.
\<close>

fun search_from :: "pattern \<Rightarrow> nat option \<Rightarrow> ustring \<Rightarrow> nat \<Rightarrow> nat option" where
  "search_from p prev [] i = (case rmatch p prev [] of Some m \<Rightarrow> Some i | None \<Rightarrow> None)"
| "search_from p prev (c # cs) i =
     (case rmatch p prev (c # cs) of
        Some m \<Rightarrow> Some i
      | None \<Rightarrow> search_from p (Some c) cs (Suc i))"

definition re_search :: "pattern \<Rightarrow> ustring \<Rightarrow> nat option" where
  "re_search p s = search_from p None s 0"

section \<open>The verse segmenter (\<^verbatim>\<open>VersePatternProcessor\<close>)\<close>

datatype verse_type = Verse | Irregular

record verse =
  marker :: ustring
  content :: ustring
  line_number :: nat
  type_tag :: verse_type

definition digits1 :: atom where
  "digits1 = Many1 [CatDigit]"

definition dot :: atom where
  "dot = OneOf [Chr 46]"

definition colon :: atom where
  "colon = OneOf [Chr 58]"

text \<open>\<^verbatim>\<open>[\<close>U+0967\<^verbatim>\<open>-\<close>U+096F\<^verbatim>\<open>]+\<close>: the Devanagari digits one to nine.\<close>

definition deva1 :: atom where
  "deva1 = Many1 [Range 2407 2415]"

text \<open>U+0965, the double danda.\<close>

definition danda :: atom where
  "danda = OneOf [Chr 2405]"

definition standard_patterns :: "pattern list" where
  "standard_patterns =
    [[AtBegin, digits1, dot, digits1, dot, digits1],
     [AtBegin, digits1, dot, digits1],
     [AtBegin, digits1, dot],
     [AtBegin, digits1],
     [AtBegin, digits1, colon, digits1],
     [AtBegin, digits1, colon, digits1, colon, digits1]]"

definition complex_patterns :: "pattern list" where
  "complex_patterns =
    [[AtBegin, digits1, dot, digits1, dot, digits1],
     [AtBegin, digits1, dot, digits1],
     [AtBegin, digits1, dot],
     [AtBegin, digits1],
     [AtBegin, deva1, dot],
     [AtBegin, deva1, colon, deva1],
     [AtBegin, danda, Many0 [CatSpace], digits1, Many0 [CatSpace], danda],
     [AtBegin, danda, deva1, danda]]"

text \<open>
  The fallback pattern as the regular-expression compiler reads it: inside the
  brackets \<^verbatim>\<open>\d\<close>, \<^verbatim>\<open>\s\<close>, \<^verbatim>\<open>\.\<close>, then the range from \<^verbatim>\<open>:\<close> (58) to
  U+0900 (2304), then the literal \<^verbatim>\<open>-\<close> (45) and the literal U+097F (2431).
\<close>

definition irregular_pattern :: pattern where
  "irregular_pattern =
    [AtBegin, Many1 [CatDigit, CatSpace, Chr 46, Range 58 2304, Chr 45, Chr 2431], AtEnd]"

text \<open>The \<^verbatim>\<open>for pattern in [...]\<close> loop with its \<^verbatim>\<open>break\<close>.\<close>

fun try_patterns :: "pattern list \<Rightarrow> ustring \<Rightarrow> ustring option" where
  "try_patterns [] line = None"
| "try_patterns (p # ps) line =
     (case re_match p line of Some m \<Rightarrow> Some m | None \<Rightarrow> try_patterns ps line)"

text \<open>The body of the line loop: the records (none or one) appended for one line.\<close>

definition standard_line :: "nat \<Rightarrow> ustring \<Rightarrow> verse list" where
  "standard_line line_num raw =
     (let line = py_strip raw in
      if line = [] then []
      else case try_patterns standard_patterns line of
             Some m \<Rightarrow> [\<lparr>marker = m, content = line, line_number = line_num, type_tag = Verse\<rparr>]
           | None \<Rightarrow> [])"

definition complex_line :: "nat \<Rightarrow> ustring \<Rightarrow> verse list" where
  "complex_line line_num raw =
     (let line = py_strip raw in
      if line = [] then []
      else case try_patterns complex_patterns line of
             Some m \<Rightarrow> [\<lparr>marker = m, content = line, line_number = line_num, type_tag = Verse\<rparr>]
           | None \<Rightarrow>
               if length line < 20 \<and> re_match irregular_pattern line \<noteq> None
               then [\<lparr>marker = line, content = line, line_number = line_num,
                      type_tag = Irregular\<rparr>]
               else [])"

text \<open>\<^verbatim>\<open>for line_num, line in enumerate(lines, 1)\<close>, appending to \<open>verses\<close>.\<close>

fun line_loop ::
  "(nat \<Rightarrow> ustring \<Rightarrow> verse list) \<Rightarrow> nat \<Rightarrow> ustring list \<Rightarrow> verse list \<Rightarrow> verse list" where
  "line_loop body line_num [] verses = verses"
| "line_loop body line_num (l # ls) verses =
     line_loop body (Suc line_num) ls (verses @ body line_num l)"

definition extract_standard_verses :: "ustring \<Rightarrow> verse list" where
  "extract_standard_verses txt = line_loop standard_line 1 (py_split [10] txt) []"

definition extract_complex_verses :: "ustring \<Rightarrow> verse list" where
  "extract_complex_verses txt = line_loop complex_line 1 (py_split [10] txt) []"

text \<open>
  The lookup table maps a scripture name to its recommended strategy; an unknown
  name gets \<^verbatim>\<open>'standard'\<close>, and every strategy other than \<^verbatim>\<open>'complex'\<close> runs the
  standard extraction.
\<close>

definition get_parsing_strategy :: "(ustring \<rightharpoonup> ustring) \<Rightarrow> ustring \<Rightarrow> ustring" where
  "get_parsing_strategy scriptures scripture_name =
     (case scriptures scripture_name of Some strategy \<Rightarrow> strategy | None \<Rightarrow> ustr ''standard'')"

definition extract_verses :: "(ustring \<rightharpoonup> ustring) \<Rightarrow> ustring \<Rightarrow> ustring \<Rightarrow> verse list" where
  "extract_verses scriptures txt scripture_name =
     (if get_parsing_strategy scriptures scripture_name = ustr ''complex''
      then extract_complex_verses txt
      else extract_standard_verses txt)"

text \<open>The characters an atom can consume (none for the zero-width assertions).\<close>

fun atom_accepts :: "atom \<Rightarrow> nat \<Rightarrow> bool" where
  "atom_accepts (OneOf cl) c = in_class cl c"
| "atom_accepts (Many1 cl) c = in_class cl c"
| "atom_accepts (Many0 cl) c = in_class cl c"
| "atom_accepts (Maybe cl) c = in_class cl c"
| "atom_accepts (MaybeLit w) c = (c \<in> set w)"
| "atom_accepts AtBegin c = False"
| "atom_accepts AtEnd c = False"
| "atom_accepts (AtBoundary an) c = False"

text \<open>
  Specification vocabulary for searches: \<open>p\<close> matches in \<open>s\<close> at offset \<open>i\<close>, and
  \<open>i\<close> is the first such offset.
\<close>

definition matches_at :: "pattern \<Rightarrow> ustring \<Rightarrow> nat \<Rightarrow> bool" where
  "matches_at p s i =
     (i \<le> length s \<and> rmatch p (if i = 0 then None else Some (s ! (i - 1))) (drop i s) \<noteq> None)"

definition first_match_at :: "pattern \<Rightarrow> ustring \<Rightarrow> nat \<Rightarrow> bool" where
  "first_match_at p s i = (matches_at p s i \<and> (\<forall>j<i. \<not> matches_at p s j))"

text \<open>The character before offset \<open>i\<close> of \<open>s\<close>, when \<open>prev\<close> stands before \<open>s\<close>.\<close>

definition prev_at :: "nat option \<Rightarrow> ustring \<Rightarrow> nat \<Rightarrow> nat option" where
  "prev_at prev s i = (if i = 0 then prev else Some (s ! (i - 1)))"

section \<open>The chapter isolator (\<^verbatim>\<open>isolate_chapter\<close>, plain and OCR scripts)\<close>

text \<open>\<^verbatim>\<open>str(n)\<close> for a non-negative integer, as the f-strings format the chapter number.\<close>

fun str_nat :: "nat \<Rightarrow> ustring" where
  "str_nat n = (if n < 10 then [48 + n] else str_nat (n div 10) @ [48 + n mod 10])"

declare str_nat.simps [simp del]

definition lit :: "nat \<Rightarrow> atom" where
  "lit c = OneOf [Chr c]"

text \<open>
  A literal under \<^verbatim>\<open>re.IGNORECASE\<close>: the engine compares the lower-cased character of
  the text with the lower-cased literal.  For an ASCII letter other than \<^verbatim>\<open>i\<close>,
  \<^verbatim>\<open>k\<close> and \<^verbatim>\<open>s\<close> (none of which occurs in the patterns below) exactly its two ASCII
  forms qualify; a character without case is compared as it is.
\<close>

definition lit_ic :: "nat \<Rightarrow> atom" where
  "lit_ic c =
     (if 65 \<le> c \<and> c \<le> 90 then OneOf [Chr c, Chr (c + 32)]
      else if 97 \<le> c \<and> c \<le> 122 then OneOf [Chr (c - 32), Chr c]
      else OneOf [Chr c])"

text \<open>\<^verbatim>\<open>rf"CHAPTER\s+{n}\b"\<close>, compiled with \<^verbatim>\<open>re.IGNORECASE\<close>.\<close>

definition chapter_pattern :: "(nat \<Rightarrow> bool) \<Rightarrow> nat \<Rightarrow> pattern" where
  "chapter_pattern an n =
     map lit_ic (ustr ''CHAPTER'') @ [Many1 [CatSpace]] @ map lit_ic (str_nat n) @ [AtBoundary an]"

text \<open>
  The second half of the function: the end pattern is searched in
  \<^verbatim>\<open>full_text[start:]\<close>, and the chapter is \<^verbatim>\<open>full_text[start:start + end]\<close>, or
  \<^verbatim>\<open>full_text[start:]\<close> when the end pattern is not found.
\<close>

definition chapter_slice :: "pattern \<Rightarrow> ustring \<Rightarrow> nat \<Rightarrow> ustring" where
  "chapter_slice chapter_end_pattern full_text start =
     (case re_search chapter_end_pattern (drop start full_text) of
        Some e \<Rightarrow> drop start (take (start + e) full_text)
      | None \<Rightarrow> drop start full_text)"

definition isolate_chapter :: "(nat \<Rightarrow> bool) \<Rightarrow> ustring \<Rightarrow> nat \<Rightarrow> ustring option" where
  "isolate_chapter an full_text chapter_number =
     (if full_text = [] then None
      else case re_search (chapter_pattern an chapter_number) full_text of
             None \<Rightarrow> None
           | Some start \<Rightarrow>
               Some (chapter_slice (chapter_pattern an (chapter_number + 1)) full_text start))"

text \<open>
  The OCR script tries four pairs of patterns in order:
  \<^verbatim>\<open>CHAPTER\s+n\b\<close>, \<^verbatim>\<open>Chapter\s+n\b\<close>, \<^verbatim>\<open>CHAPTER\s+n[:\.\s]\<close> and
  \<^verbatim>\<open>Ch\.?\s*n\b\<close>, all with \<^verbatim>\<open>re.IGNORECASE\<close>.
\<close>

definition ocr_pattern :: "(nat \<Rightarrow> bool) \<Rightarrow> nat \<Rightarrow> nat \<Rightarrow> pattern" where
  "ocr_pattern an variant n =
     (if variant = 0 then
        map lit_ic (ustr ''CHAPTER'') @ [Many1 [CatSpace]] @ map lit_ic (str_nat n) @ [AtBoundary an]
      else if variant = 1 then
        map lit_ic (ustr ''Chapter'') @ [Many1 [CatSpace]] @ map lit_ic (str_nat n) @ [AtBoundary an]
      else if variant = 2 then
        map lit_ic (ustr ''CHAPTER'') @ [Many1 [CatSpace]] @ map lit_ic (str_nat n)
          @ [OneOf [Chr 58, Chr 46, CatSpace]]
      else
        map lit_ic (ustr ''Ch'') @ [Maybe [Chr 46], Many0 [CatSpace]] @ map lit_ic (str_nat n)
          @ [AtBoundary an])"

definition ocr_patterns :: "(nat \<Rightarrow> bool) \<Rightarrow> nat \<Rightarrow> (pattern \<times> pattern) list" where
  "ocr_patterns an chapter_number =
     map (\<lambda>variant. (ocr_pattern an variant chapter_number,
                      ocr_pattern an variant (chapter_number + 1))) [0, 1, 2, 3]"

fun ocr_loop :: "(pattern \<times> pattern) list \<Rightarrow> ustring \<Rightarrow> ustring option" where
  "ocr_loop [] full_text = None"
| "ocr_loop ((chapter_start_pattern, chapter_end_pattern) # ps) full_text =
     (case re_search chapter_start_pattern full_text of
        Some start \<Rightarrow> Some (chapter_slice chapter_end_pattern full_text start)
      | None \<Rightarrow> ocr_loop ps full_text)"

definition isolate_chapter_ocr :: "(nat \<Rightarrow> bool) \<Rightarrow> ustring \<Rightarrow> nat \<Rightarrow> ustring option" where
  "isolate_chapter_ocr an full_text chapter_number =
     (if full_text = [] then None else ocr_loop (ocr_patterns an chapter_number) full_text)"

section \<open>Cleaning the reply of the generative model (\<^verbatim>\<open>clean_response_text\<close>)\<close>

text \<open>
  \<^verbatim>\<open>re.sub(p, "", s)\<close>: every non-overlapping match of \<open>p\<close>, found from the left, is
  removed.  After a non-empty match the scan goes on behind it; an empty match removes
  nothing, and at the end of the text only an empty match is possible.
\<close>

function sub_from :: "pattern \<Rightarrow> nat option \<Rightarrow> ustring \<Rightarrow> ustring" where
  "sub_from p prev [] = []"
| "sub_from p prev (c # cs) =
     (case rmatch p prev (c # cs) of
        None \<Rightarrow> c # sub_from p (Some c) cs
      | Some m \<Rightarrow>
          if m = [] then c # sub_from p (Some c) cs
          else sub_from p (Some (last m)) (drop (length m) (c # cs)))"
  by pat_completeness auto
termination
  by (relation "measure (\<lambda>(p, prev, s). length s)") auto

definition re_sub_del :: "pattern \<Rightarrow> ustring \<Rightarrow> ustring" where
  "re_sub_del p s = sub_from p None s"

text \<open>\<^verbatim>\<open>s.find(c)\<close> and \<^verbatim>\<open>s.rfind(c)\<close> for a single character: an index, or -1.\<close>

fun find_from :: "nat \<Rightarrow> ustring \<Rightarrow> nat \<Rightarrow> int" where
  "find_from c [] i = - 1"
| "find_from c (x # xs) i = (if x = c then int i else find_from c xs (Suc i))"

definition py_find :: "nat \<Rightarrow> ustring \<Rightarrow> int" where
  "py_find c s = find_from c s 0"

definition py_rfind :: "nat \<Rightarrow> ustring \<Rightarrow> int" where
  "py_rfind c s =
     (let r = py_find c (rev s) in if r = - 1 then - 1 else int (length s) - 1 - r)"

text \<open>
  The three substitutions remove \<^verbatim>\<open>[\x00-\x1F\x7F]\<close>, then
  \<^verbatim>\<open>^```(json)?\s*\<close> from the stripped text, then \<^verbatim>\<open>\s*```$\<close>; 96 is the
  backquote, 123 and 125 are the braces.
\<close>

definition clean_response_text :: "ustring \<Rightarrow> ustring" where
  "clean_response_text text0 =
     (let text1 = re_sub_del [OneOf [Range 0 31, Chr 127]] text0;
          text2 = re_sub_del [AtBegin, lit 96, lit 96, lit 96, MaybeLit (ustr ''json''),
                              Many0 [CatSpace]] (py_strip text1);
          text3 = re_sub_del [Many0 [CatSpace], lit 96, lit 96, lit 96, AtEnd] text2;
          first_brace = py_find 123 text3;
          last_brace = py_rfind 125 text3
      in if first_brace \<noteq> - 1 \<and> last_brace \<noteq> - 1 \<and> last_brace > first_brace
         then drop (nat first_brace) (take (nat (last_brace + 1)) text3)
         else [])"

text \<open>
  The specification's words for the result, ``the substring between the first
  \<^verbatim>\<open>{\<close> and the last \<^verbatim>\<open>}\<close>'': what is left of the text from its first \<^verbatim>\<open>{\<close> on
  when everything behind the last \<^verbatim>\<open>}\<close> of that part is dropped (nothing, when
  there is no \<^verbatim>\<open>{\<close> with a \<^verbatim>\<open>}\<close> behind it).
\<close>

definition brace_span :: "ustring \<Rightarrow> ustring" where
  "brace_span s = rev (dropWhile (\<lambda>c. c \<noteq> 125) (rev (dropWhile (\<lambda>c. c \<noteq> 123) s)))"

section \<open>More string and integer operations of Python\<close>

text \<open>\<^verbatim>\<open>sub in s\<close>, \<^verbatim>\<open>sep.join(parts)\<close> and \<^verbatim>\<open>s.replace(old, new)\<close> (for a non-empty \<open>old\<close>).\<close>

fun py_contains :: "ustring \<Rightarrow> ustring \<Rightarrow> bool" where
  "py_contains sub [] = (sub = [])"
| "py_contains sub (c # cs) = (starts_with sub (c # cs) \<or> py_contains sub cs)"

fun py_join :: "ustring \<Rightarrow> ustring list \<Rightarrow> ustring" where
  "py_join sep [] = []"
| "py_join sep [p] = p"
| "py_join sep (p # q # ps) = p @ sep @ py_join sep (q # ps)"

function py_replace :: "ustring \<Rightarrow> ustring \<Rightarrow> ustring \<Rightarrow> ustring" where
  "py_replace old new [] = []"
| "py_replace old new (c # cs) =
     (if old \<noteq> [] \<and> starts_with old (c # cs)
      then new @ py_replace old new (drop (length old) (c # cs))
      else c # py_replace old new cs)"
  by pat_completeness auto
termination
  by (relation "measure (\<lambda>(old, new, s). length s)") (auto simp: neq_Nil_conv)

text \<open>\<^verbatim>\<open>str(i)\<close> for an integer.\<close>

definition str_int :: "int \<Rightarrow> ustring" where
  "str_int i = (if i < 0 then 45 # str_nat (nat (- i)) else str_nat (nat i))"

text \<open>
  \<^verbatim>\<open>int(s)\<close>: white space around the numeral is ignored, a sign may lead, the digits
  are decimal digits of any script, and single underscores may stand between digits.
  \<open>None\<close> stands for ValueError.  The white space of \<^verbatim>\<open>int\<close> is not that of
  \<^verbatim>\<open>str.strip\<close>: the conversion turns the white-space characters above ASCII
  into blanks and then skips the blank and the characters from tab to carriage return
  at both ends, so the separators U+001C to U+001F make the numeral invalid.  (The
  limit that recent interpreters put on the number of digits is not modelled.)
\<close>

definition int_space_ranges :: "(nat \<times> nat) list" where
  "int_space_ranges =
    [(9, 13), (32, 32), (133, 133), (160, 160), (5760, 5760), (8192, 8202),
     (8232, 8233), (8239, 8239), (8287, 8287), (12288, 12288)]"

definition int_space :: "nat \<Rightarrow> bool" where
  "int_space c = in_ranges c int_space_ranges"

definition int_strip :: "ustring \<Rightarrow> ustring" where
  "int_strip s = rev (dropWhile int_space (rev (dropWhile int_space s)))"

fun digit_in :: "nat \<Rightarrow> (nat \<times> nat) list \<Rightarrow> nat" where
  "digit_in c [] = 0"
| "digit_in c ((lo, hi) # rs) = (if lo \<le> c \<and> c \<le> hi then (c - lo) mod 10 else digit_in c rs)"

definition digit_value :: "nat \<Rightarrow> nat" where
  "digit_value c = digit_in c decimal_ranges"

fun int_body :: "bool \<Rightarrow> ustring \<Rightarrow> bool" where
  "int_body after_digit [] = after_digit"
| "int_body after_digit (c # cs) =
     (if uni_decimal c then int_body True cs
      else if c = 95 \<and> after_digit then int_body False cs
      else False)"

definition digits_value :: "ustring \<Rightarrow> nat" where
  "digits_value s = foldl (\<lambda>acc c. if c = 95 then acc else acc * 10 + digit_value c) 0 s"

definition py_int :: "ustring \<Rightarrow> int option" where
  "py_int s =
     (let t = int_strip s;
          negative = (t \<noteq> [] \<and> hd t = 45);
          body = (if t \<noteq> [] \<and> (hd t = 45 \<or> hd t = 43) then tl t else t)
      in if int_body False body
         then Some (if negative then - int (digits_value body) else int (digits_value body))
         else None)"

section \<open>The manifest builders\<close>

text \<open>
  What the builders read from the file system.  A chapter is a file \<open>stem\<close>\<^verbatim>\<open>.pdf\<close>;
  its sibling \<open>stem\<close>\<^verbatim>\<open>.json\<close> is absent, or present but failing to open or parse, or
  present with the value \<^verbatim>\<open>json.load\<close> returns.  A folder holds the files that
  \<^verbatim>\<open>glob("*.pdf")\<close> finds in it.  (Numbers other than integers are left out of the
  JSON values; an object is the list of its members, each key once.)
\<close>

datatype json =
    JNull | JBool bool | JNum int | JStr ustring | JArr "json list"
  | JObj "(ustring \<times> json) list"

datatype sibling = Absent | Unreadable | Loaded json

record pdf_file =
  stem :: ustring
  sibling_json :: sibling

record folder =
  folder_name :: ustring
  pdf_files :: "pdf_file list"

record chapter_entry =
  chapterId :: ustring
  chapterNumber :: int
  title :: json
  titleEnglish :: json
  metadataUrl :: ustring
  pdfUrl :: ustring
  hasMetadata :: bool

record section_entry =
  sectionId :: ustring
  sectionName :: ustring
  sectionNameEnglish :: ustring
  chapterCount :: nat
  chapters :: "chapter_entry list"

record manifest =
  scriptureId :: ustring
  scriptureName :: ustring
  totalChapters :: nat
  lastUpdated :: ustring
  sections :: "section_entry list"

definition pdf_name :: "pdf_file \<Rightarrow> ustring" where
  "pdf_name f = stem f @ ustr ''.pdf''"

definition json_name :: "pdf_file \<Rightarrow> ustring" where
  "json_name f = stem f @ ustr ''.json''"

text \<open>
  The chapter number of a file, as both the Caraka and the Sushruta builder compute
  it from the stem: the text behind the first \<^verbatim>\<open>Chapter_\<close>, up to the next
  underscore, read by \<^verbatim>\<open>int\<close>.  \<open>None\<close> is the \<^verbatim>\<open>continue\<close> of the loop (the
  marker is missing, or the \<^verbatim>\<open>except\<close> branch is taken).
\<close>

definition chapter_number_of :: "ustring \<Rightarrow> int option" where
  "chapter_number_of pdf_filename =
     (if py_contains (ustr ''Chapter_'') pdf_filename then
        (case py_split (ustr ''Chapter_'') pdf_filename of
           before # chapter_part # rest \<Rightarrow>
             py_int (if 95 \<in> set chapter_part
                     then (case py_split [95] chapter_part of p # ps \<Rightarrow> p | [] \<Rightarrow> chapter_part)
                     else chapter_part)
         | _ \<Rightarrow> None)
      else None)"

text \<open>
  \<^verbatim>\<open>manifest["sections"].sort(key=lambda x: int(x["sectionId"]))\<close> inside
  \<^verbatim>\<open>try\<close>/\<^verbatim>\<open>except: pass\<close>: when some id is no integer the key function raises
  and the list keeps its order.
\<close>

definition sort_sections :: "section_entry list \<Rightarrow> section_entry list" where
  "sort_sections ss =
     (if list_all (\<lambda>s. py_int (sectionId s) \<noteq> None) ss
      then sort_key (\<lambda>s. the (py_int (sectionId s))) ss
      else ss)"

subsection \<open>Caraka Samhita (\<^verbatim>\<open>generate_chapter_manifest.py\<close>)\<close>

definition caraka_bucket :: ustring where
  "caraka_bucket = ustr ''gs://mygurukul-library''"

text \<open>The keys hold U+0101, U+012B and U+015A (257, 299, 346).\<close>

definition caraka_translations :: "(ustring \<times> ustring) list" where
  "caraka_translations =
    [(ustr ''Sutrasthanam'', ustr ''Foundational Principles''),
     (ustr ''Nidanasthanam'', ustr ''Diagnostics''),
     (ustr ''Vim'' @ [257] @ ustr ''nasthanam'', ustr ''Specific Determinations''),
     ([346, 257] @ ustr ''r'' @ [299] @ ustr ''rasthanam'', ustr ''Anatomy & Physiology''),
     (ustr ''Indriyasthanam'', ustr ''Prognosis''),
     (ustr ''Cikits'' @ [257] @ ustr ''sthanam'', ustr ''Therapeutics''),
     (ustr ''Kalpasthanam'', ustr ''Pharmaceutics''),
     (ustr ''Siddhisthanam'', ustr ''Success in Treatment'')]"

definition caraka_section_info :: "ustring \<Rightarrow> ustring \<times> ustring" where
  "caraka_section_info section_name =
     (let parts = py_split [95] section_name in
      if length parts \<ge> 3 \<and> parts ! 0 = ustr ''Section''
      then (parts ! 1, py_join [95] (drop 2 parts))
      else (ustr ''unknown'', section_name))"

definition caraka_chapter_entry :: "ustring \<Rightarrow> ustring \<Rightarrow> pdf_file \<Rightarrow> int \<Rightarrow> chapter_entry" where
  "caraka_chapter_entry scripture_id section_name f chapter_num =
     \<lparr>chapterId = str_int chapter_num,
      chapterNumber = chapter_num,
      title = JStr (ustr ''Chapter '' @ str_int chapter_num),
      titleEnglish = JStr [],
      metadataUrl = caraka_bucket @ ustr ''/metadata/chapters/'' @ scripture_id @ ustr ''/''
                    @ section_name @ ustr ''/'' @ json_name f,
      pdfUrl = caraka_bucket @ ustr ''/pdfs/'' @ scripture_id @ ustr ''/''
               @ section_name @ ustr ''/'' @ pdf_name f,
      hasMetadata = (sibling_json f \<noteq> Absent)\<rparr>"

text \<open>
  The loop over the files of a section; the state is the list \<open>chapters\<close> and the
  counter \<^verbatim>\<open>manifest["totalChapters"]\<close>.
\<close>

fun caraka_pdf_loop ::
  "ustring \<Rightarrow> ustring \<Rightarrow> pdf_file list \<Rightarrow> chapter_entry list \<times> nat \<Rightarrow> chapter_entry list \<times> nat"
where
  "caraka_pdf_loop scripture_id section_name [] st = st"
| "caraka_pdf_loop scripture_id section_name (f # fs) (chs, tally) =
     (case chapter_number_of (stem f) of
        None \<Rightarrow> caraka_pdf_loop scripture_id section_name fs (chs, tally)
      | Some chapter_num \<Rightarrow>
          caraka_pdf_loop scripture_id section_name fs
            (chs @ [caraka_chapter_entry scripture_id section_name f chapter_num], tally + 1))"

fun caraka_section_loop :: "ustring \<Rightarrow> folder list \<Rightarrow> manifest \<Rightarrow> manifest" where
  "caraka_section_loop scripture_id [] m = m"
| "caraka_section_loop scripture_id (d # ds) m =
     (let section_name = folder_name d;
          info = caraka_section_info section_name;
          section_english = (case map_of caraka_translations (snd info) of
                               Some e \<Rightarrow> e | None \<Rightarrow> []);
          files = sort_key pdf_name (pdf_files d)
      in if files = [] then caraka_section_loop scripture_id ds m
         else
           let st = caraka_pdf_loop scripture_id section_name files ([], totalChapters m);
               sorted_chapters = sort_key chapterNumber (fst st);
               section_entry = \<lparr>sectionId = fst info, sectionName = snd info,
                                 sectionNameEnglish = section_english,
                                 chapterCount = length sorted_chapters,
                                 chapters = sorted_chapters\<rparr>
           in caraka_section_loop scripture_id ds
                (m\<lparr>totalChapters := snd st, sections := sections m @ [section_entry]\<rparr>))"

text \<open>
  \<open>root\<close> is \<open>None\<close> when the root directory does not exist, and otherwise the
  directories in it; \<open>now\<close> is the formatted time of the run.
\<close>

definition generate_chapter_manifest ::
  "folder list option \<Rightarrow> ustring \<Rightarrow> ustring \<Rightarrow> ustring \<Rightarrow> manifest option" where
  "generate_chapter_manifest root scripture_id scripture_name now =
     (case root of
        None \<Rightarrow> None
      | Some dirs \<Rightarrow>
          let section_folders = sort_key folder_name dirs in
          if section_folders = [] then None
          else
            let m = caraka_section_loop scripture_id section_folders
                      \<lparr>scriptureId = scripture_id, scriptureName = scripture_name,
                       totalChapters = 0, lastUpdated = now @ ustr ''Z'', sections = []\<rparr>
            in Some (m\<lparr>sections := sort_sections (sections m)\<rparr>))"

subsection \<open>Sushruta Samhita (\<^verbatim>\<open>generate_chapter_manifest_sushruta_samhita_copy.py\<close>)\<close>

definition sushruta_id :: ustring where
  "sushruta_id = ustr ''sushruta_samhita''"

text \<open>\<^verbatim>\<open>SCRIPTURE_NAME\<close> holds U+1E43 and U+0101 (7747, 257).\<close>

definition sushruta_name :: ustring where
  "sushruta_name = ustr ''Sushruta Sa'' @ [7747] @ ustr ''hit'' @ [257]"

definition sushruta_url_root :: ustring where
  "sushruta_url_root =
     ustr ''gs://mygurukul-sacred-texts-corpus'' @ ustr ''/''
     @ ustr ''Gurukul_Library/Primary_Texts/Ayurveda/Sushruta_Samhita''"

definition sushruta_translations :: "(ustring \<times> ustring) list" where
  "sushruta_translations =
    [(ustr ''Sutrasthanam'', ustr ''Foundational Principles''),
     (ustr ''Nidanasthanam'', ustr ''Diagnostics''),
     (ustr ''Sarirasthanam'', ustr ''Anatomy''),
     (ustr ''Chikitsasthanam'', ustr ''Therapeutics''),
     (ustr ''Kalpasthanam'', ustr ''Pharmaceutics''),
     (ustr ''Uttaratantram'', ustr ''Supplementary Treatise'')]"

definition extract_section_info :: "ustring \<Rightarrow> ustring \<times> ustring \<times> ustring" where
  "extract_section_info fname =
     (let clean_name = py_replace (ustr ''sushruta_samhita_'') []
                         (py_replace (ustr ''Sushruta_Samhita_'') [] fname);
          parts = py_split [95] clean_name;
          id_name = (if py_contains (ustr ''Section_'') clean_name
                     then (if length parts \<ge> 3
                           then (parts ! 1, py_join [95] (drop 2 parts))
                           else (ustr ''unknown'', clean_name))
                     else (ustr ''unknown'', fname));
          section_english = (case map_of sushruta_translations (snd id_name) of
                               Some e \<Rightarrow> e | None \<Rightarrow> [])
      in (fst id_name, snd id_name, section_english))"

definition sushruta_chapter_entry :: "ustring \<Rightarrow> pdf_file \<Rightarrow> int \<Rightarrow> chapter_entry" where
  "sushruta_chapter_entry fname f chapter_num =
     \<lparr>chapterId = str_int chapter_num,
      chapterNumber = chapter_num,
      title = JStr (ustr ''Chapter '' @ str_int chapter_num),
      titleEnglish = JStr [],
      metadataUrl = sushruta_url_root @ ustr ''/'' @ fname @ ustr ''/'' @ json_name f,
      pdfUrl = sushruta_url_root @ ustr ''/'' @ fname @ ustr ''/'' @ pdf_name f,
      hasMetadata = (sibling_json f \<noteq> Absent)\<rparr>"

fun sushruta_pdf_loop ::
  "ustring \<Rightarrow> pdf_file list \<Rightarrow> chapter_entry list \<times> nat \<Rightarrow> chapter_entry list \<times> nat" where
  "sushruta_pdf_loop fname [] st = st"
| "sushruta_pdf_loop fname (f # fs) (chs, tally) =
     (case chapter_number_of (stem f) of
        None \<Rightarrow> sushruta_pdf_loop fname fs (chs, tally)
      | Some chapter_num \<Rightarrow>
          sushruta_pdf_loop fname fs (chs @ [sushruta_chapter_entry fname f chapter_num], tally + 1))"

fun sushruta_section_loop :: "folder list \<Rightarrow> manifest \<Rightarrow> manifest" where
  "sushruta_section_loop [] m = m"
| "sushruta_section_loop (d # ds) m =
     (let info = extract_section_info (folder_name d);
          st = sushruta_pdf_loop (folder_name d) (sort_key pdf_name (pdf_files d))
                 ([], totalChapters m);
          sorted_chapters = sort_key chapterNumber (fst st);
          section_entry = \<lparr>sectionId = fst info, sectionName = fst (snd info),
                            sectionNameEnglish = snd (snd info),
                            chapterCount = length sorted_chapters,
                            chapters = sorted_chapters\<rparr>
      in sushruta_section_loop ds
           (m\<lparr>totalChapters := snd st, sections := sections m @ [section_entry]\<rparr>))"

text \<open>\<^verbatim>\<open>main\<close>: the result is the manifest written to the output file, if any.\<close>

definition sushruta_main :: "folder list option \<Rightarrow> ustring \<Rightarrow> manifest option" where
  "sushruta_main root now =
     (case root of
        None \<Rightarrow> None
      | Some dirs \<Rightarrow>
          let m = sushruta_section_loop (sort_key folder_name dirs)
                    \<lparr>scriptureId = sushruta_id, scriptureName = sushruta_name,
                     totalChapters = 0, lastUpdated = now @ ustr ''Z'', sections = []\<rparr>
          in Some (m\<lparr>sections := sort_sections (sections m)\<rparr>))"

subsection \<open>Ramayana (\<^verbatim>\<open>generate_chapter_manifest_ramayana.py\<close>)\<close>

text \<open>
  This builder reads groups of its matches, and one of its patterns has the lazy
  repetition \<^verbatim>\<open>.+?\<close>.  \<open>rparts\<close> is the matcher once more, now returning the text
  each atom has consumed, one text per atom, so that a group is the text of the atoms it
  encloses; \<open>Lazy1\<close> tries the shorter repetition first.
\<close>

datatype gatom = Take atom | Lazy1 "cset list"

definition cons_first :: "nat \<Rightarrow> ustring list \<Rightarrow> ustring list" where
  "cons_first c ps = (case ps of [] \<Rightarrow> [[c]] | p # ps' \<Rightarrow> (c # p) # ps')"

function rparts :: "gatom list \<Rightarrow> nat option \<Rightarrow> ustring \<Rightarrow> ustring list option" where
  "rparts [] prev s = Some []"
| "rparts (Take (OneOf cl) # r) prev [] = None"
| "rparts (Take (OneOf cl) # r) prev (c # cs) =
     (if in_class cl c then map_option (Cons [c]) (rparts r (Some c) cs) else None)"
| "rparts (Take (Many1 cl) # r) prev [] = None"
| "rparts (Take (Many1 cl) # r) prev (c # cs) =
     (if in_class cl c
      then map_option (cons_first c) (rparts (Take (Many0 cl) # r) (Some c) cs)
      else None)"
| "rparts (Take (Many0 cl) # r) prev [] = map_option (Cons []) (rparts r prev [])"
| "rparts (Take (Many0 cl) # r) prev (c # cs) =
     (if in_class cl c
      then (case rparts (Take (Many0 cl) # r) (Some c) cs of
              Some ps \<Rightarrow> Some (cons_first c ps)
            | None \<Rightarrow> map_option (Cons []) (rparts r prev (c # cs)))
      else map_option (Cons []) (rparts r prev (c # cs)))"
| "rparts (Take (Maybe cl) # r) prev [] = map_option (Cons []) (rparts r prev [])"
| "rparts (Take (Maybe cl) # r) prev (c # cs) =
     (if in_class cl c
      then (case rparts r (Some c) cs of
              Some ps \<Rightarrow> Some ([c] # ps)
            | None \<Rightarrow> map_option (Cons []) (rparts r prev (c # cs)))
      else map_option (Cons []) (rparts r prev (c # cs)))"
| "rparts (Take (MaybeLit w) # r) prev s =
     (if w \<noteq> [] \<and> starts_with w s
      then (case rparts r (Some (last w)) (drop (length w) s) of
              Some ps \<Rightarrow> Some (w # ps)
            | None \<Rightarrow> map_option (Cons []) (rparts r prev s))
      else map_option (Cons []) (rparts r prev s))"
| "rparts (Take AtBegin # r) prev s =
     (if prev = None then map_option (Cons []) (rparts r prev s) else None)"
| "rparts (Take AtEnd # r) prev s =
     (if s = [] \<or> s = [10] then map_option (Cons []) (rparts r prev s) else None)"
| "rparts (Take (AtBoundary an) # r) prev s =
     (if word_at an prev \<noteq> word_at an (case s of [] \<Rightarrow> None | c # cs \<Rightarrow> Some c)
      then map_option (Cons []) (rparts r prev s) else None)"
| "rparts (Lazy1 cl # r) prev [] = None"
| "rparts (Lazy1 cl # r) prev (c # cs) =
     (if in_class cl c
      then (case rparts r (Some c) cs of
              Some ps \<Rightarrow> Some ([c] # ps)
            | None \<Rightarrow> map_option (cons_first c) (rparts (Lazy1 cl # r) (Some c) cs))
      else None)"
  by pat_completeness auto
termination
  by (relation "measure (\<lambda>(p, prev, s). length p + length s)") auto

text \<open>\<^verbatim>\<open>re.search\<close>, returning the consumed texts of the first match.\<close>

fun search_parts :: "gatom list \<Rightarrow> nat option \<Rightarrow> ustring \<Rightarrow> ustring list option" where
  "search_parts p prev [] = rparts p prev []"
| "search_parts p prev (c # cs) =
     (case rparts p prev (c # cs) of
        Some ps \<Rightarrow> Some ps
      | None \<Rightarrow> search_parts p (Some c) cs)"

text \<open>
  \<^verbatim>\<open>re.sub(p, repl, s)\<close> for a pattern that matches no empty text: every match is
  replaced by \<open>repl\<close>.
\<close>

function sub_with :: "pattern \<Rightarrow> ustring \<Rightarrow> nat option \<Rightarrow> ustring \<Rightarrow> ustring" where
  "sub_with p repl prev [] = []"
| "sub_with p repl prev (c # cs) =
     (case rmatch p prev (c # cs) of
        None \<Rightarrow> c # sub_with p repl (Some c) cs
      | Some m \<Rightarrow>
          if m = [] then c # sub_with p repl (Some c) cs
          else repl @ sub_with p repl (Some (last m)) (drop (length m) (c # cs)))"
  by pat_completeness auto
termination
  by (relation "measure (\<lambda>(p, repl, prev, s). length s)") auto

text \<open>The dot of a pattern: every character but the newline.\<close>

definition any_char :: "cset list" where
  "any_char = [Range 0 9, Range 11 1114111]"

text \<open>
  \<^verbatim>\<open>(?:CHAPTER|Chapter)\<close> is compiled with \<^verbatim>\<open>re.IGNORECASE\<close>, under which both
  alternatives accept the same texts; it is the one word.
\<close>

definition chapter_word :: pattern where
  "chapter_word = map lit_ic (ustr ''CHAPTER'')"

text \<open>
  \<^verbatim>\<open>[IVX]\<close> under \<^verbatim>\<open>re.IGNORECASE\<close>: the characters whose lower case is one of
  \<^verbatim>\<open>i\<close>, \<^verbatim>\<open>v\<close>, \<^verbatim>\<open>x\<close>, and the dotless i (U+0131, 305) that the engine pairs
  with \<^verbatim>\<open>i\<close>; U+0130 (304) has the lower case \<^verbatim>\<open>i\<close>.  \<open>roman_upper\<close> is
  \<^verbatim>\<open>str.upper\<close> on these characters.
\<close>

definition roman_class :: "cset list" where
  "roman_class = [Chr 73, Chr 86, Chr 88, Chr 105, Chr 118, Chr 120, Chr 304, Chr 305]"

definition roman_upper :: "nat \<Rightarrow> nat" where
  "roman_upper c =
     (if c = 105 \<or> c = 305 then 73 else if c = 118 then 86 else if c = 120 then 88 else c)"

definition roman_to_int :: "(ustring \<times> int) list" where
  "roman_to_int =
    [(ustr ''I'', 1), (ustr ''II'', 2), (ustr ''III'', 3), (ustr ''IV'', 4), (ustr ''V'', 5),
     (ustr ''VI'', 6), (ustr ''VII'', 7), (ustr ''VIII'', 8), (ustr ''IX'', 9), (ustr ''X'', 10),
     (ustr ''XI'', 11), (ustr ''XII'', 12), (ustr ''XIII'', 13), (ustr ''XIV'', 14),
     (ustr ''XV'', 15),
     (ustr ''i'', 1), (ustr ''ii'', 2), (ustr ''iii'', 3), (ustr ''iv'', 4), (ustr ''v'', 5),
     (ustr ''vi'', 6), (ustr ''vii'', 7), (ustr ''viii'', 8), (ustr ''ix'', 9), (ustr ''x'', 10),
     (ustr ''xi'', 11), (ustr ''xii'', 12), (ustr ''xiii'', 13), (ustr ''xiv'', 14),
     (ustr ''xv'', 15)]"

text \<open>
  \<^verbatim>\<open>extract_kanda_info\<close>, with the pattern \<^verbatim>\<open>(\d+)\.\s*(.+?)\s*$\<close>: group 1 is the
  text of the first atom, group 2 that of the fourth.  \<open>None\<close> is the pair
  \<^verbatim>\<open>(None, None)\<close>.
\<close>

definition extract_kanda_info :: "ustring \<Rightarrow> (int \<times> ustring) option" where
  "extract_kanda_info fname =
     (case rparts [Take (Many1 [CatDigit]), Take (OneOf [Chr 46]), Take (Many0 [CatSpace]),
                   Lazy1 any_char, Take (Many0 [CatSpace]), Take AtEnd] None fname of
        Some [g1, d, w1, g2, w2, e] \<Rightarrow>
          (case py_int g1 of
             Some kanda_num \<Rightarrow>
               Some (kanda_num,
                     ustr ''Kanda '' @ str_int kanda_num @ ustr '': '' @ py_strip g2)
           | None \<Rightarrow> None)
      | _ \<Rightarrow> None)"

text \<open>
  \<^verbatim>\<open>extract_chapter_number\<close>: Arabic numerals first, then Roman ones; in both
  patterns group 1 is the text of the last atom.
\<close>

definition last_group :: "ustring list option \<Rightarrow> ustring option" where
  "last_group r = (case r of None \<Rightarrow> None | Some ps \<Rightarrow> (case rev ps of [] \<Rightarrow> None | g # gs \<Rightarrow> Some g))"

definition extract_chapter_number :: "ustring \<Rightarrow> int option" where
  "extract_chapter_number filename =
     (case (case last_group (search_parts
                    (map Take (chapter_word @ [Many1 [CatSpace], Many1 [CatDigit]]))
                    None filename) of
              Some g \<Rightarrow> py_int g
            | None \<Rightarrow> None) of
        Some chapter_num \<Rightarrow> Some chapter_num
      | None \<Rightarrow>
          (case last_group (search_parts
                    (map Take (chapter_word @ [Many1 [CatSpace], Many1 roman_class]))
                    None filename) of
             Some g \<Rightarrow> map_of roman_to_int (map roman_upper g)
           | None \<Rightarrow> None))"

text \<open>\<^verbatim>\<open>Path(filename).stem\<close>: the name without its last suffix.\<close>

definition path_stem :: "ustring \<Rightarrow> ustring" where
  "path_stem name =
     (let i = py_rfind 46 name in
      if 0 < i \<and> i < int (length name) - 1 then take (nat i) name else name)"

definition derive_fallback_title :: "ustring \<Rightarrow> ustring" where
  "derive_fallback_title filename =
     (let cleaned1 = path_stem filename;
          cleaned2 = re_sub_del ([AtBegin] @ chapter_word
                       @ [Many1 [CatSpace], Many1 [CatDigit], Many1 [CatSpace]]) cleaned1;
          cleaned3 = re_sub_del ([AtBegin] @ chapter_word
                       @ [Many1 [CatSpace], Many1 roman_class, Many1 [CatSpace]]) cleaned2;
          cleaned4 = py_replace [45] [32] (py_replace [95] [32] cleaned3);
          cleaned5 = py_strip (sub_with [Many1 [CatSpace]] [32] None cleaned4)
      in if cleaned5 \<noteq> [] then cleaned5 else ustr ''Ramayana Chapter'')"

definition ramayana_url_root :: ustring where
  "ramayana_url_root =
     ustr ''gs://mygurukul-sacred-texts-corpus'' @ ustr ''/''
     @ ustr ''Gurukul_Library/Primary_Texts/Epics/Ramayana''"

text \<open>
  The title and the metadata flag of a chapter.  Reading the sibling fails when the
  file does not open or parse, and also when the loaded value is no object
  (\<^verbatim>\<open>data.get\<close> then raises); the \<^verbatim>\<open>except\<close> branch resets \<^verbatim>\<open>has_metadata\<close>
  and leaves the fallback title.
\<close>

definition ramayana_title :: "pdf_file \<Rightarrow> ustring \<Rightarrow> json \<times> bool" where
  "ramayana_title f fallback =
     (case sibling_json f of
        Absent \<Rightarrow> (JStr fallback, False)
      | Unreadable \<Rightarrow> (JStr fallback, False)
      | Loaded (JObj members) \<Rightarrow>
          (case map_of members (ustr ''chapterTitle'') of
             Some t \<Rightarrow> (t, True)
           | None \<Rightarrow> (JStr fallback, True))
      | Loaded other \<Rightarrow> (JStr fallback, False))"

definition ramayana_chapter_entry :: "ustring \<Rightarrow> pdf_file \<Rightarrow> int \<Rightarrow> chapter_entry" where
  "ramayana_chapter_entry kanda_folder_name f chapter_num =
     (let title_meta = ramayana_title f (derive_fallback_title (pdf_name f));
          has_metadata = snd title_meta
      in \<lparr>chapterId = str_int chapter_num,
          chapterNumber = chapter_num,
          title = fst title_meta,
          titleEnglish = fst title_meta,
          metadataUrl = (if has_metadata
                         then ramayana_url_root @ ustr ''/'' @ kanda_folder_name @ ustr ''/''
                              @ json_name f
                         else []),
          pdfUrl = ramayana_url_root @ ustr ''/'' @ kanda_folder_name @ ustr ''/'' @ pdf_name f,
          hasMetadata = has_metadata\<rparr>)"

fun ramayana_pdf_loop ::
  "ustring \<Rightarrow> pdf_file list \<Rightarrow> chapter_entry list \<times> nat \<Rightarrow> chapter_entry list \<times> nat" where
  "ramayana_pdf_loop kname [] st = st"
| "ramayana_pdf_loop kname (f # fs) (chs, tally) =
     (case extract_chapter_number (pdf_name f) of
        None \<Rightarrow> ramayana_pdf_loop kname fs (chs, tally)
      | Some chapter_num \<Rightarrow>
          ramayana_pdf_loop kname fs (chs @ [ramayana_chapter_entry kname f chapter_num], tally + 1))"

fun ramayana_kanda_loop :: "folder list \<Rightarrow> manifest \<Rightarrow> manifest" where
  "ramayana_kanda_loop [] m = m"
| "ramayana_kanda_loop (d # ds) m =
     (case extract_kanda_info (folder_name d) of
        None \<Rightarrow> ramayana_kanda_loop ds m
      | Some info \<Rightarrow>
          let files = sort_key pdf_name (pdf_files d) in
          if files = [] then ramayana_kanda_loop ds m
          else
            let st = ramayana_pdf_loop (folder_name d) files ([], totalChapters m);
                sorted_chapters = sort_key chapterNumber (fst st);
                section_entry = \<lparr>sectionId = str_int (fst info), sectionName = snd info,
                                  sectionNameEnglish = snd info,
                                  chapterCount = length sorted_chapters,
                                  chapters = sorted_chapters\<rparr>
            in ramayana_kanda_loop ds
                 (m\<lparr>totalChapters := snd st, sections := sections m @ [section_entry]\<rparr>))"

text \<open>\<^verbatim>\<open>^\d+\.\s+.+\<close>, the test a directory has to pass.\<close>

definition kanda_folder_pattern :: pattern where
  "kanda_folder_pattern =
     [AtBegin, Many1 [CatDigit], OneOf [Chr 46], Many1 [CatSpace], Many1 any_char]"

text \<open>\<^verbatim>\<open>extract_kanda_info(d.name)[0] or 999\<close>: a missing number and the number 0 give 999.\<close>

definition kanda_sort_key :: "folder \<Rightarrow> int" where
  "kanda_sort_key d =
     (case extract_kanda_info (folder_name d) of
        Some info \<Rightarrow> if fst info = 0 then 999 else fst info
      | None \<Rightarrow> 999)"

datatype py_error = ValueError

text \<open>
  \<open>root\<close> is \<open>None\<close> when the root directory does not exist, and otherwise the
  directories in it, in the order the operating system lists them.  The last sort is
  not guarded here: an id that \<^verbatim>\<open>int\<close> rejects raises.
\<close>

definition ramayana_generate_chapter_manifest ::
  "folder list option \<Rightarrow> ustring \<Rightarrow> py_error + manifest option" where
  "ramayana_generate_chapter_manifest root now =
     (case root of
        None \<Rightarrow> Inr None
      | Some dirs \<Rightarrow>
          let kanda_folders =
                sort_key kanda_sort_key
                  (filter (\<lambda>d. re_match kanda_folder_pattern (folder_name d) \<noteq> None) dirs)
          in if kanda_folders = [] then Inr None
             else
               let m = ramayana_kanda_loop kanda_folders
                         \<lparr>scriptureId = ustr ''ramayana_valmiki'',
                          scriptureName = ustr ''Ramayana by Valmiki'',
                          totalChapters = 0, lastUpdated = now @ ustr ''Z'', sections = []\<rparr>
               in if list_all (\<lambda>s. py_int (sectionId s) \<noteq> None) (sections m)
                  then (if sections m = [] then Inr None
                        else Inr (Some (m\<lparr>sections :=
                                sort_key (\<lambda>s. the (py_int (sectionId s))) (sections m)\<rparr>)))
                  else Inl ValueError)"

text \<open>
  Specification vocabulary: the total of a manifest is the sum of the chapter counts of
  its sections, and every chapter count is the length of the section's chapter list.
\<close>

definition counts_agree :: "manifest \<Rightarrow> bool" where
  "counts_agree m =
     (totalChapters m = sum_list (map chapterCount (sections m))
      \<and> list_all (\<lambda>s. chapterCount s = length (chapters s)) (sections m))"

text \<open>Specification vocabulary: all chapter entries of a manifest.\<close>

definition entries :: "manifest \<Rightarrow> chapter_entry set" where
  "entries m = (\<Union>s \<in> set (sections m). set (chapters s))"

text \<open>
  Specification vocabulary: the entries a builder owes to one folder, one for every
  file of the folder whose name yields a chapter number.
\<close>

definition caraka_folder_entries :: "ustring \<Rightarrow> folder \<Rightarrow> chapter_entry set" where
  "caraka_folder_entries sid d =
     {caraka_chapter_entry sid (folder_name d) f n | f n.
        f \<in> set (pdf_files d) \<and> chapter_number_of (stem f) = Some n}"

definition sushruta_folder_entries :: "folder \<Rightarrow> chapter_entry set" where
  "sushruta_folder_entries d =
     {sushruta_chapter_entry (folder_name d) f n | f n.
        f \<in> set (pdf_files d) \<and> chapter_number_of (stem f) = Some n}"

definition ramayana_folder_entries :: "folder \<Rightarrow> chapter_entry set" where
  "ramayana_folder_entries d =
     {ramayana_chapter_entry (folder_name d) f n | f n.
        extract_kanda_info (folder_name d) \<noteq> None
        \<and> f \<in> set (pdf_files d) \<and> extract_chapter_number (pdf_name f) = Some n}"

section \<open>Facts about the matcher\<close>

lemma starts_with_append: "starts_with w s \<Longrightarrow> \<exists>t. s = w @ t"
  by (induction w s rule: starts_with.induct) auto

lemma starts_with_drop: "starts_with w s \<Longrightarrow> w @ drop (length w) s = s"
  using starts_with_append by fastforce

lemma rmatch_prefix: "rmatch p prev s = Some m \<Longrightarrow> \<exists>t. s = m @ t"
proof (induction p prev s arbitrary: m rule: rmatch.induct)
  case (10 w r prev s)
  show ?case
  proof (cases "w \<noteq> [] \<and> starts_with w s")
    case True
    note guard = this
    show ?thesis
    proof (cases "rmatch r (Some (last w)) (drop (length w) s)")
      case None
      with guard "10.prems" "10.IH"(2) show ?thesis by simp
    next
      case (Some m')
      with guard "10.prems" have m: "m = w @ m'" by simp
      from "10.IH"(1) [OF guard Some] obtain t where "drop (length w) s = m' @ t" by blast
      with starts_with_drop [of w s] guard m have "s = m @ t" by simp
      then show ?thesis by blast
    qed
  next
    case False
    with "10.prems" "10.IH"(3) show ?thesis by simp
  qed
qed (auto split: if_splits option.splits)

lemma rmatch_chars:
  "rmatch p prev s = Some m \<Longrightarrow> \<forall>c \<in> set m. \<exists>a \<in> set p. atom_accepts a c"
proof (induction p prev s arbitrary: m rule: rmatch.induct)
  case (10 w r prev s)
  show ?case
  proof (cases "w \<noteq> [] \<and> starts_with w s")
    case True
    note guard = this
    show ?thesis
    proof (cases "rmatch r (Some (last w)) (drop (length w) s)")
      case None
      with guard "10.prems" "10.IH"(2) show ?thesis by simp
    next
      case (Some m')
      with guard "10.prems" have m: "m = w @ m'" by simp
      from "10.IH"(1) [OF guard Some] m show ?thesis by auto
    qed
  next
    case False
    with "10.prems" "10.IH"(3) show ?thesis by simp
  qed
qed (auto split: if_splits option.splits, blast+)

section \<open>Pattern order\<close>

lemma many0_succeeds: "rmatch [Many0 cl] prev s \<noteq> None"
  by (induction s arbitrary: prev) (auto split: option.splits)

lemma digits1_required:
  "rmatch [AtBegin, digits1] None s = None \<Longrightarrow> rmatch (AtBegin # digits1 # r) None s = None"
proof (cases s)
  case Nil
  then show ?thesis by (simp add: digits1_def)
next
  case (Cons c cs)
  assume a: "rmatch [AtBegin, digits1] None s = None"
  show ?thesis
  proof (cases "in_class [CatDigit] c")
    case True
    with a Cons have "rmatch [Many0 [CatDigit]] (Some c) cs = None"
      by (simp add: digits1_def)
    with many0_succeeds show ?thesis by blast
  next
    case False
    with Cons show ?thesis by (simp add: digits1_def)
  qed
qed

lemma try_patterns_first:
  "i < length ps \<Longrightarrow> re_match (ps ! i) line = Some m
   \<Longrightarrow> (\<forall>j<i. re_match (ps ! j) line = None) \<Longrightarrow> try_patterns ps line = Some m"
proof (induction ps arbitrary: i)
  case Nil
  then show ?case by simp
next
  case (Cons p ps)
  show ?case
  proof (cases i)
    case 0
    with Cons.prems show ?thesis by simp
  next
    case (Suc k)
    with Cons.prems have "re_match p line = None" by auto
    moreover have "try_patterns ps line = Some m"
    proof (rule Cons.IH [of k])
      show "k < length ps" using Cons.prems Suc by simp
      show "re_match (ps ! k) line = Some m" using Cons.prems Suc by simp
      show "\<forall>j<k. re_match (ps ! j) line = None"
      proof (intro allI impI)
        fix j assume "j < k"
        then have "Suc j < i" using Suc by simp
        with Cons.prems(3) have "re_match ((p # ps) ! Suc j) line = None" by blast
        then show "re_match (ps ! j) line = None" by simp
      qed
    qed
    ultimately show ?thesis by simp
  qed
qed

lemma try_patterns_source:
  "try_patterns ps line = Some m \<Longrightarrow> \<exists>p \<in> set ps. re_match p line = Some m"
  by (induction ps) (auto split: option.splits)

lemma standard_colon_unreachable:
  "try_patterns standard_patterns line = try_patterns (take 4 standard_patterns) line"
proof (cases "re_match [AtBegin, digits1] line")
  case None
  then have "\<And>r. re_match (AtBegin # digits1 # r) line = None"
    unfolding re_match_def by (rule digits1_required)
  then show ?thesis by (simp add: standard_patterns_def None)
next
  case (Some m)
  then show ?thesis by (simp add: standard_patterns_def split: option.splits)
qed

lemma not_colon: "\<not> uni_decimal 58"
  by (simp add: uni_decimal_def decimal_ranges_def)

lemma numeric_marker_no_colon:
  assumes "try_patterns (take 4 standard_patterns) line = Some m"
  shows "58 \<notin> set m"
proof
  assume c: "58 \<in> set m"
  from assms obtain p where p: "p \<in> set (take 4 standard_patterns)" "re_match p line = Some m"
    using try_patterns_source by blast
  from p(2) c obtain a where a: "a \<in> set p" "atom_accepts a 58"
    using rmatch_chars unfolding re_match_def by blast
  from p(1) a(1) have "a = AtBegin \<or> a = digits1 \<or> a = dot"
    by (auto simp: standard_patterns_def)
  with a(2) show False
    by (auto simp: digits1_def dot_def in_class_def not_colon)
qed

section \<open>The line loop of the segmenter\<close>

lemma line_loop_append:
  "line_loop body n ls acc = acc @ line_loop body n ls []"
proof (induction ls arbitrary: n acc)
  case Nil
  show ?case by simp
next
  case (Cons l ls)
  have "line_loop body n (l # ls) acc = (acc @ body n l) @ line_loop body (Suc n) ls []"
    using Cons.IH [of "Suc n" "acc @ body n l"] by simp
  moreover have "line_loop body n (l # ls) [] = body n l @ line_loop body (Suc n) ls []"
    using Cons.IH [of "Suc n" "body n l"] by simp
  ultimately show ?case by simp
qed

lemma line_loop_Cons:
  "line_loop body n (l # ls) [] = body n l @ line_loop body (Suc n) ls []"
  using line_loop_append [of body "Suc n" ls "body n l"] by simp

lemma line_loop_member:
  "v \<in> set (line_loop body n ls []) \<Longrightarrow> \<exists>i<length ls. v \<in> set (body (n + i) (ls ! i))"
proof (induction ls arbitrary: n)
  case Nil
  then show ?case by simp
next
  case (Cons l ls)
  from Cons.prems have "v \<in> set (body n l) \<or> v \<in> set (line_loop body (Suc n) ls [])"
    by (simp add: line_loop_Cons del: line_loop.simps)
  then show ?case
  proof
    assume "v \<in> set (body n l)"
    then have "0 < length (l # ls) \<and> v \<in> set (body (n + 0) ((l # ls) ! 0))" by simp
    then show ?thesis by blast
  next
    assume "v \<in> set (line_loop body (Suc n) ls [])"
    then obtain i where "i < length ls" "v \<in> set (body (Suc n + i) (ls ! i))"
      using Cons.IH by blast
    then have "Suc i < length (l # ls) \<and> v \<in> set (body (n + Suc i) ((l # ls) ! Suc i))"
      by simp
    then show ?thesis by blast
  qed
qed

lemma line_loop_length:
  assumes "\<And>k l. length (body k l) \<le> (if py_strip l \<noteq> [] then 1 else 0)"
  shows "length (line_loop body n ls []) \<le> length (filter (\<lambda>l. py_strip l \<noteq> []) ls)"
proof (induction ls arbitrary: n)
  case Nil
  show ?case by simp
next
  case (Cons l ls)
  have "length (body n l) \<le> (if py_strip l \<noteq> [] then 1 else 0)" by (rule assms)
  with Cons.IH [of "Suc n"] show ?case
    by (simp add: line_loop_Cons del: line_loop.simps split: if_splits)
qed

lemma line_loop_increasing:
  assumes num: "\<And>k l v. v \<in> set (body k l) \<Longrightarrow> line_number v = k"
    and one: "\<And>k l. length (body k l) \<le> 1"
  shows "sorted_wrt (<) (map line_number (line_loop body n ls []))
         \<and> (\<forall>v \<in> set (line_loop body n ls []). n \<le> line_number v)"
proof (induction ls arbitrary: n)
  case Nil
  show ?case by simp
next
  case (Cons l ls)
  have tail: "sorted_wrt (<) (map line_number (line_loop body (Suc n) ls []))"
    and low: "\<forall>v \<in> set (line_loop body (Suc n) ls []). Suc n \<le> line_number v"
    using Cons.IH [of "Suc n"] by simp_all
  have hd1: "sorted_wrt (<) (map line_number (body n l))"
  proof (cases "body n l")
    case Nil
    then show ?thesis by simp
  next
    case (Cons a as)
    with one [of n l] have "as = []" by simp
    with Cons show ?thesis by simp
  qed
  have hd2: "\<forall>v \<in> set (body n l). line_number v = n" using num by blast
  show ?case
    using tail low hd1 hd2 by (fastforce simp: line_loop_Cons sorted_wrt_append simp del: line_loop.simps)
qed

lemma standard_line_props:
  "length (standard_line k l) \<le> (if py_strip l \<noteq> [] then 1 else 0)"
  "v \<in> set (standard_line k l) \<Longrightarrow>
     line_number v = k \<and> content v = py_strip l \<and> py_strip l \<noteq> []"
  by (auto simp: standard_line_def Let_def split: option.splits if_splits)

lemma complex_line_props:
  "length (complex_line k l) \<le> (if py_strip l \<noteq> [] then 1 else 0)"
  "v \<in> set (complex_line k l) \<Longrightarrow>
     line_number v = k \<and> content v = py_strip l \<and> py_strip l \<noteq> []"
  by (auto simp: complex_line_def Let_def split: option.splits if_splits)

lemma line_loop_coverage:
  assumes len: "\<And>k l. length (body k l) \<le> (if py_strip l \<noteq> [] then 1 else 0)"
    and mem: "\<And>k l v. v \<in> set (body k l) \<Longrightarrow>
                line_number v = k \<and> content v = py_strip l \<and> py_strip l \<noteq> []"
  shows "distinct (map line_number (line_loop body 1 ls []))
     \<and> (\<forall>v \<in> set (line_loop body 1 ls []).
           1 \<le> line_number v \<and> line_number v \<le> length ls
         \<and> py_strip (ls ! (line_number v - 1)) \<noteq> []
         \<and> content v = py_strip (ls ! (line_number v - 1)))
     \<and> length (line_loop body 1 ls []) \<le> length (filter (\<lambda>l. py_strip l \<noteq> []) ls)"
proof -
  have one: "\<And>k l. length (body k l) \<le> 1"
  proof -
    fix k l
    show "length (body k l) \<le> 1" using len [of k l] by (simp split: if_splits)
  qed
  have "sorted_wrt (<) (map line_number (line_loop body 1 ls []))"
    using line_loop_increasing [of body 1 ls] mem one by blast
  then have d: "distinct (map line_number (line_loop body 1 ls []))"
    by (simp add: strict_sorted_iff)
  have m: "\<forall>v \<in> set (line_loop body 1 ls []).
           1 \<le> line_number v \<and> line_number v \<le> length ls
         \<and> py_strip (ls ! (line_number v - 1)) \<noteq> []
         \<and> content v = py_strip (ls ! (line_number v - 1))"
  proof
    fix v
    assume "v \<in> set (line_loop body 1 ls [])"
    then obtain i where i: "i < length ls" "v \<in> set (body (1 + i) (ls ! i))"
      using line_loop_member by blast
    from mem [OF i(2)] i(1)
    show "1 \<le> line_number v \<and> line_number v \<le> length ls
         \<and> py_strip (ls ! (line_number v - 1)) \<noteq> []
         \<and> content v = py_strip (ls ! (line_number v - 1))"
      by simp
  qed
  from d m line_loop_length [of body 1 ls, OF len] show ?thesis by blast
qed
section \<open>Evaluating the segmenter\<close>

lemmas segmenter_eval =
  ustr_def py_split_def py_strip_def py_lstrip_def py_rstrip_def uni_space_def space_ranges_def
  uni_decimal_def decimal_ranges_def in_class_def re_match_def
  digits1_def dot_def colon_def deva1_def danda_def
  standard_patterns_def complex_patterns_def irregular_pattern_def
  standard_line_def complex_line_def extract_standard_verses_def extract_complex_verses_def
  Let_def

lemma py_rstrip_Cons:
  "py_rstrip (c # s) =
     (if py_rstrip s = [] then (if uni_space c then [] else [c]) else c # py_rstrip s)"
  by (auto simp: py_rstrip_def dropWhile_append split: if_splits)

lemma no_pattern_on_empty:
  "\<forall>p \<in> set standard_patterns \<union> set complex_patterns. re_match p [] = None"
  by (simp add: standard_patterns_def complex_patterns_def re_match_def digits1_def deva1_def
      danda_def)

section \<open>The claims about the segmenter\<close>

text \<open>
  Claim C1.  The claim says that under the complex strategy an unmatched line gives an
  \<open>irregular\<close> record exactly when it is shorter than 20 characters and made only of
  digits, whitespace, \<^verbatim>\<open>.\<close>, \<^verbatim>\<open>:\<close>, \<^verbatim>\<open>-\<close> and characters of the Devanagari block,
  and that a short unmatched line with an ASCII letter gives no record.  The character
  class of the fallback pattern reads \<^verbatim>\<open>:-\<close>U+0900 as a range, so it holds every
  code point from 58 to 2304 (the ASCII letters among them) and, of the Devanagari
  block, only U+0900 and U+097F.  The line \<^verbatim>\<open>abc\<close> matches no marker pattern and
  gives an \<open>irregular\<close> record; the line made of U+0950 (the Devanagari sign OM)
  matches no marker pattern and gives no record.
\<close>

theorem irregular_fallback_class_slip:
  "try_patterns complex_patterns (ustr ''abc'') = None
   \<and> extract_complex_verses (ustr ''abc'') =
       [\<lparr>marker = ustr ''abc'', content = ustr ''abc'', line_number = 1,
         type_tag = Irregular\<rparr>]
   \<and> try_patterns complex_patterns [2384] = None
   \<and> extract_complex_verses [2384] = []"
  by (simp add: segmenter_eval)

text \<open>
  Claim C7.  Under either strategy the records of a text have pairwise distinct line
  numbers; each line number is the 1-based index of a line of the text (split at
  newlines) that is not blank, the record's content is that line stripped, and there are
  at most as many records as non-blank lines.
\<close>

theorem segmenter_line_coverage:
  "\<forall>out \<in> {extract_standard_verses txt, extract_complex_verses txt}.
     distinct (map line_number out)
     \<and> (\<forall>v \<in> set out.
           1 \<le> line_number v \<and> line_number v \<le> length (py_split [10] txt)
         \<and> py_strip (py_split [10] txt ! (line_number v - 1)) \<noteq> []
         \<and> content v = py_strip (py_split [10] txt ! (line_number v - 1)))
     \<and> length out \<le> length (filter (\<lambda>l. py_strip l \<noteq> []) (py_split [10] txt))"
  using line_loop_coverage [of standard_line "py_split [10] txt",
      OF standard_line_props(1) standard_line_props(2)]
    line_loop_coverage [of complex_line "py_split [10] txt",
      OF complex_line_props(1) complex_line_props(2)]
  unfolding extract_standard_verses_def extract_complex_verses_def
  by blast

theorem segmenter_line_coverage_witness:
  "extract_complex_verses (ustr ''1.2 a'' @ [10, 32, 10] @ ustr ''xyz'') =
     [\<lparr>marker = ustr ''1.2'', content = ustr ''1.2 a'', line_number = 1, type_tag = Verse\<rparr>,
      \<lparr>marker = ustr ''xyz'', content = ustr ''xyz'', line_number = 3, type_tag = Irregular\<rparr>]
   \<and> py_split [10] (ustr ''1.2 a'' @ [10, 32, 10] @ ustr ''xyz'') =
       [ustr ''1.2 a'', [32], ustr ''xyz'']
   \<and> distinct (map line_number
         (extract_complex_verses (ustr ''1.2 a'' @ [10, 32, 10] @ ustr ''xyz'')))
   \<and> length (extract_complex_verses (ustr ''1.2 a'' @ [10, 32, 10] @ ustr ''xyz'')) \<le> 2"
proof -
  let ?t = "ustr ''1.2 a'' @ [10, 32, 10] @ ustr ''xyz''"
  have out: "extract_complex_verses ?t =
     [\<lparr>marker = ustr ''1.2'', content = ustr ''1.2 a'', line_number = 1, type_tag = Verse\<rparr>,
      \<lparr>marker = ustr ''xyz'', content = ustr ''xyz'', line_number = 3, type_tag = Irregular\<rparr>]"
    by (simp add: segmenter_eval)
  have ls: "py_split [10] ?t = [ustr ''1.2 a'', [32], ustr ''xyz'']"
    by (simp add: ustr_def py_split_def)
  have nb: "length (filter (\<lambda>l. py_strip l \<noteq> []) [ustr ''1.2 a'', [32], ustr ''xyz'']) = 2"
    by (simp add: ustr_def py_strip_def py_lstrip_def py_rstrip_def uni_space_def
        space_ranges_def)
  have "distinct (map line_number (extract_complex_verses ?t))
      \<and> length (extract_complex_verses ?t)
          \<le> length (filter (\<lambda>l. py_strip l \<noteq> []) (py_split [10] ?t))"
    using segmenter_line_coverage [of ?t] by blast
  with out ls nb show ?thesis by simp
qed

lemma line_loop_at:
  assumes num: "\<And>k l v. v \<in> set (body k l) \<Longrightarrow> line_number v = k"
  shows "i < length ls \<Longrightarrow>
    filter (\<lambda>v. line_number v = n + i) (line_loop body n ls []) = body (n + i) (ls ! i)"
proof (induction ls arbitrary: n i)
  case Nil
  then show ?case by simp
next
  case (Cons l ls)
  have split: "line_loop body n (l # ls) [] = body n l @ line_loop body (Suc n) ls []"
    by (rule line_loop_Cons)
  have later: "\<And>v. v \<in> set (line_loop body (Suc n) ls []) \<Longrightarrow> Suc n \<le> line_number v"
  proof -
    fix v assume "v \<in> set (line_loop body (Suc n) ls [])"
    then obtain j where "v \<in> set (body (Suc n + j) (ls ! j))" using line_loop_member by blast
    then show "Suc n \<le> line_number v" using num by fastforce
  qed
  show ?case
  proof (cases i)
    case 0
    have "filter (\<lambda>v. line_number v = n) (body n l) = body n l"
      using num by (simp add: filter_id_conv)
    moreover have "filter (\<lambda>v. line_number v = n) (line_loop body (Suc n) ls []) = []"
      using later by (fastforce simp: filter_empty_conv)
    ultimately show ?thesis unfolding split using 0 by simp
  next
    case (Suc i')
    have "filter (\<lambda>v. line_number v = n + i) (body n l) = []"
      using num Suc by (fastforce simp: filter_empty_conv)
    moreover have "filter (\<lambda>v. line_number v = Suc n + i') (line_loop body (Suc n) ls [])
        = body (Suc n + i') (ls ! i')"
      using Cons.prems Suc by (intro Cons.IH) simp
    ultimately show ?thesis unfolding split using Suc by simp
  qed
qed

lemma line_priority:
  "k < length standard_patterns \<Longrightarrow> re_match (standard_patterns ! k) (py_strip raw) = Some m
   \<Longrightarrow> (\<forall>j<k. re_match (standard_patterns ! j) (py_strip raw) = None)
   \<Longrightarrow> standard_line n raw =
         [\<lparr>marker = m, content = py_strip raw, line_number = n, type_tag = Verse\<rparr>]"
  "k < length complex_patterns \<Longrightarrow> re_match (complex_patterns ! k) (py_strip raw) = Some m
   \<Longrightarrow> (\<forall>j<k. re_match (complex_patterns ! j) (py_strip raw) = None)
   \<Longrightarrow> complex_line n raw =
         [\<lparr>marker = m, content = py_strip raw, line_number = n, type_tag = Verse\<rparr>]"
proof -
  assume k: "k < length standard_patterns"
    and m: "re_match (standard_patterns ! k) (py_strip raw) = Some m"
    and first: "\<forall>j<k. re_match (standard_patterns ! j) (py_strip raw) = None"
  from k have "standard_patterns ! k \<in> set standard_patterns" by simp
  with m no_pattern_on_empty have ne: "py_strip raw \<noteq> []" by fastforce
  from try_patterns_first [OF k m first] ne
  show "standard_line n raw =
      [\<lparr>marker = m, content = py_strip raw, line_number = n, type_tag = Verse\<rparr>]"
    by (simp add: standard_line_def Let_def)
next
  assume k: "k < length complex_patterns"
    and m: "re_match (complex_patterns ! k) (py_strip raw) = Some m"
    and first: "\<forall>j<k. re_match (complex_patterns ! j) (py_strip raw) = None"
  from k have "complex_patterns ! k \<in> set complex_patterns" by simp
  with m no_pattern_on_empty have ne: "py_strip raw \<noteq> []" by fastforce
  from try_patterns_first [OF k m first] ne
  show "complex_line n raw =
      [\<lparr>marker = m, content = py_strip raw, line_number = n, type_tag = Verse\<rparr>]"
    by (simp add: complex_line_def Let_def)
qed

lemma dotted_triple_marker:
  "map marker (complex_line n (ustr ''1.2.3 '' @ rest)) = [ustr ''1.2.3'']"
proof -
  have sp: "uni_space 32" "\<not> uni_space 49" "\<not> uni_space 46" "\<not> uni_space 50"
    "\<not> uni_space 51"
    by (simp_all add: uni_space_def space_ranges_def)
  have dg: "uni_decimal 49" "uni_decimal 50" "uni_decimal 51" "\<not> uni_decimal 46"
    "\<not> uni_decimal 32"
    by (simp_all add: uni_decimal_def decimal_ranges_def)
  have "py_strip (ustr ''1.2.3 '' @ rest) =
     ustr ''1.2.3'' @ (if py_rstrip rest = [] then [] else 32 # py_rstrip rest)"
    by (simp add: ustr_def py_strip_def py_lstrip_def py_rstrip_Cons sp)
  then show ?thesis
    by (simp add: complex_line_def Let_def ustr_def complex_patterns_def re_match_def
        digits1_def dot_def in_class_def dg)
qed

text \<open>
  Claim C8.  For a line of the text that some pattern of the strategy's list matches,
  the segmenter emits exactly one record with that line's number, and the record carries
  the text matched by the earliest matching pattern of the list, whatever the later
  patterns would match.  Under the complex strategy a line beginning \<^verbatim>\<open>1.2.3 \<close>
  gets the one marker \<^verbatim>\<open>1.2.3\<close>.  (Line \<open>i\<close>, counted from 0, has the number
  \<open>i + 1\<close>.)
\<close>

theorem pattern_priority:
  "(\<forall>i < length (py_split [10] txt). \<forall>k < length standard_patterns.
       re_match (standard_patterns ! k) (py_strip (py_split [10] txt ! i)) = Some m
       \<and> (\<forall>j<k. re_match (standard_patterns ! j) (py_strip (py_split [10] txt ! i)) = None)
       \<longrightarrow> filter (\<lambda>v. line_number v = Suc i) (extract_standard_verses txt) =
             [\<lparr>marker = m, content = py_strip (py_split [10] txt ! i), line_number = Suc i,
               type_tag = Verse\<rparr>])
   \<and> (\<forall>i < length (py_split [10] txt). \<forall>k < length complex_patterns.
       re_match (complex_patterns ! k) (py_strip (py_split [10] txt ! i)) = Some m
       \<and> (\<forall>j<k. re_match (complex_patterns ! j) (py_strip (py_split [10] txt ! i)) = None)
       \<longrightarrow> filter (\<lambda>v. line_number v = Suc i) (extract_complex_verses txt) =
             [\<lparr>marker = m, content = py_strip (py_split [10] txt ! i), line_number = Suc i,
               type_tag = Verse\<rparr>])
   \<and> (\<forall>i < length (py_split [10] txt). py_split [10] txt ! i = ustr ''1.2.3 '' @ rest
       \<longrightarrow> map marker (filter (\<lambda>v. line_number v = Suc i) (extract_complex_verses txt))
             = [ustr ''1.2.3''])"
proof (intro conjI allI impI)
  fix i k
  assume i: "i < length (py_split [10] txt)" and k: "k < length standard_patterns"
    and m: "re_match (standard_patterns ! k) (py_strip (py_split [10] txt ! i)) = Some m
       \<and> (\<forall>j<k. re_match (standard_patterns ! j) (py_strip (py_split [10] txt ! i)) = None)"
  have "filter (\<lambda>v. line_number v = 1 + i) (extract_standard_verses txt)
      = standard_line (1 + i) (py_split [10] txt ! i)"
    unfolding extract_standard_verses_def
    using standard_line_props(2) i by (intro line_loop_at) blast+
  with line_priority(1) [OF k, of "py_split [10] txt ! i" m "1 + i"] m
  show "filter (\<lambda>v. line_number v = Suc i) (extract_standard_verses txt) =
             [\<lparr>marker = m, content = py_strip (py_split [10] txt ! i), line_number = Suc i,
               type_tag = Verse\<rparr>]"
    by simp
next
  fix i k
  assume i: "i < length (py_split [10] txt)" and k: "k < length complex_patterns"
    and m: "re_match (complex_patterns ! k) (py_strip (py_split [10] txt ! i)) = Some m
       \<and> (\<forall>j<k. re_match (complex_patterns ! j) (py_strip (py_split [10] txt ! i)) = None)"
  have "filter (\<lambda>v. line_number v = 1 + i) (extract_complex_verses txt)
      = complex_line (1 + i) (py_split [10] txt ! i)"
    unfolding extract_complex_verses_def
    using complex_line_props(2) i by (intro line_loop_at) blast+
  with line_priority(2) [OF k, of "py_split [10] txt ! i" m "1 + i"] m
  show "filter (\<lambda>v. line_number v = Suc i) (extract_complex_verses txt) =
             [\<lparr>marker = m, content = py_strip (py_split [10] txt ! i), line_number = Suc i,
               type_tag = Verse\<rparr>]"
    by simp
next
  fix i
  assume i: "i < length (py_split [10] txt)"
    and l: "py_split [10] txt ! i = ustr ''1.2.3 '' @ rest"
  have "filter (\<lambda>v. line_number v = 1 + i) (extract_complex_verses txt)
      = complex_line (1 + i) (py_split [10] txt ! i)"
    unfolding extract_complex_verses_def
    using complex_line_props(2) i by (intro line_loop_at) blast+
  then show "map marker (filter (\<lambda>v. line_number v = Suc i) (extract_complex_verses txt))
             = [ustr ''1.2.3'']"
    unfolding l using dotted_triple_marker [of "1 + i" rest] by simp
qed

theorem pattern_priority_witness:
  "py_split [10] (ustr ''Intro!'' @ [10] @ ustr ''  1.2 text '' @ [10] @ ustr ''1.2.3 x'')
     = [ustr ''Intro!'', ustr ''  1.2 text '', ustr ''1.2.3 x'']
   \<and> re_match (complex_patterns ! 0) (ustr ''1.2 text'') = None
   \<and> re_match (complex_patterns ! 1) (ustr ''1.2 text'') = Some (ustr ''1.2'')
   \<and> re_match (complex_patterns ! 2) (ustr ''1.2 text'') = Some (ustr ''1.'')
   \<and> re_match (complex_patterns ! 3) (ustr ''1.2 text'') = Some (ustr ''1'')
   \<and> filter (\<lambda>v. line_number v = 2)
        (extract_complex_verses
          (ustr ''Intro!'' @ [10] @ ustr ''  1.2 text '' @ [10] @ ustr ''1.2.3 x''))
       = [\<lparr>marker = ustr ''1.2'', content = ustr ''1.2 text'', line_number = 2,
           type_tag = Verse\<rparr>]
   \<and> filter (\<lambda>v. line_number v = 2)
        (extract_standard_verses
          (ustr ''Intro!'' @ [10] @ ustr ''  1.2 text '' @ [10] @ ustr ''1.2.3 x''))
       = [\<lparr>marker = ustr ''1.2'', content = ustr ''1.2 text'', line_number = 2,
           type_tag = Verse\<rparr>]
   \<and> map marker (filter (\<lambda>v. line_number v = 3)
        (extract_complex_verses
          (ustr ''Intro!'' @ [10] @ ustr ''  1.2 text '' @ [10] @ ustr ''1.2.3 x'')))
       = [ustr ''1.2.3'']
   \<and> extract_complex_verses
          (ustr ''Intro!'' @ [10] @ ustr ''  1.2 text '' @ [10] @ ustr ''1.2.3 x'')
       = [\<lparr>marker = ustr ''1.2'', content = ustr ''1.2 text'', line_number = 2,
           type_tag = Verse\<rparr>,
          \<lparr>marker = ustr ''1.2.3'', content = ustr ''1.2.3 x'', line_number = 3,
           type_tag = Verse\<rparr>]"
proof -
  let ?t = "ustr ''Intro!'' @ [10] @ ustr ''  1.2 text '' @ [10] @ ustr ''1.2.3 x''"
  have ls: "py_split [10] ?t = [ustr ''Intro!'', ustr ''  1.2 text '', ustr ''1.2.3 x'']"
    by (simp add: ustr_def py_split_def)
  have s: "py_strip (ustr ''  1.2 text '') = ustr ''1.2 text''"
    by (simp add: ustr_def py_strip_def py_lstrip_def py_rstrip_def uni_space_def
        space_ranges_def)
  have p0: "re_match (complex_patterns ! 0) (ustr ''1.2 text'') = None"
    by (simp add: segmenter_eval)
  have p1: "re_match (complex_patterns ! 1) (ustr ''1.2 text'') = Some (ustr ''1.2'')"
    by (simp add: segmenter_eval)
  have p2: "re_match (complex_patterns ! 2) (ustr ''1.2 text'') = Some (ustr ''1.'')"
    by (simp add: segmenter_eval)
  have p3: "re_match (complex_patterns ! 3) (ustr ''1.2 text'') = Some (ustr ''1'')"
    by (simp add: segmenter_eval)
  have q0: "re_match (standard_patterns ! 0) (ustr ''1.2 text'') = None"
    by (simp add: segmenter_eval)
  have q1: "re_match (standard_patterns ! 1) (ustr ''1.2 text'') = Some (ustr ''1.2'')"
    by (simp add: segmenter_eval)
  have len: "(1::nat) < length (py_split [10] ?t)" "1 < length complex_patterns"
    "1 < length standard_patterns" "2 < length (py_split [10] ?t)"
    unfolding ls by (simp_all add: complex_patterns_def standard_patterns_def)
  have hc: "re_match (complex_patterns ! 1) (py_strip (py_split [10] ?t ! 1)) = Some (ustr ''1.2'')
       \<and> (\<forall>j<1. re_match (complex_patterns ! j) (py_strip (py_split [10] ?t ! 1)) = None)"
    unfolding ls using p0 p1 by (simp add: s)
  have hs: "re_match (standard_patterns ! 1) (py_strip (py_split [10] ?t ! 1)) = Some (ustr ''1.2'')
       \<and> (\<forall>j<1. re_match (standard_patterns ! j) (py_strip (py_split [10] ?t ! 1)) = None)"
    unfolding ls using q0 q1 by (simp add: s)
  have h3: "py_split [10] ?t ! 2 = ustr ''1.2.3 '' @ ustr ''x''"
    unfolding ls by (simp add: ustr_def)
  have c2: "filter (\<lambda>v. line_number v = Suc 1) (extract_complex_verses ?t) =
      [\<lparr>marker = ustr ''1.2'', content = py_strip (py_split [10] ?t ! 1), line_number = Suc 1,
        type_tag = Verse\<rparr>]"
    using pattern_priority [of ?t "ustr ''1.2''"] len hc by blast
  have s2: "filter (\<lambda>v. line_number v = Suc 1) (extract_standard_verses ?t) =
      [\<lparr>marker = ustr ''1.2'', content = py_strip (py_split [10] ?t ! 1), line_number = Suc 1,
        type_tag = Verse\<rparr>]"
    using pattern_priority [of ?t "ustr ''1.2''"] len hs by blast
  have c3: "map marker (filter (\<lambda>v. line_number v = Suc 2) (extract_complex_verses ?t))
      = [ustr ''1.2.3'']"
    using pattern_priority [of ?t _ "ustr ''x''"] len h3 by blast
  have all: "extract_complex_verses ?t
       = [\<lparr>marker = ustr ''1.2'', content = ustr ''1.2 text'', line_number = 2,
           type_tag = Verse\<rparr>,
          \<lparr>marker = ustr ''1.2.3'', content = ustr ''1.2.3 x'', line_number = 3,
           type_tag = Verse\<rparr>]"
    by (simp add: segmenter_eval)
  have n: "Suc 1 = 2" "Suc 2 = 3" by simp_all
  have content: "py_strip (py_split [10] ?t ! 1) = ustr ''1.2 text''"
    unfolding ls by (simp add: s)
  from ls p0 p1 p2 p3 c2 s2 c3 all show ?thesis
    unfolding n content by (intro conjI)
qed

text \<open>
  Claim C10.  In the standard list the two colon patterns stand after \<^verbatim>\<open>^(\d+)\<close>
  and are never reached: trying the whole list gives what trying its first four patterns
  gives, no record of the standard segmenter has a colon in its marker, and the line
  \<^verbatim>\<open>1:2 text\<close> gets the marker \<^verbatim>\<open>1\<close> with type \<open>verse\<close>.
\<close>

theorem standard_colon_patterns_dead:
  "(\<forall>line. try_patterns standard_patterns line = try_patterns (take 4 standard_patterns) line)
   \<and> (\<forall>v \<in> set (extract_standard_verses txt). 58 \<notin> set (marker v))
   \<and> extract_standard_verses (ustr ''1:2 text'') =
       [\<lparr>marker = ustr ''1'', content = ustr ''1:2 text'', line_number = 1, type_tag = Verse\<rparr>]"
proof (intro conjI allI ballI)
  fix line
  show "try_patterns standard_patterns line = try_patterns (take 4 standard_patterns) line"
    by (rule standard_colon_unreachable)
next
  fix v
  assume "v \<in> set (extract_standard_verses txt)"
  then obtain i where "v \<in> set (standard_line (1 + i) (py_split [10] txt ! i))"
    unfolding extract_standard_verses_def using line_loop_member by blast
  then have "try_patterns standard_patterns (py_strip (py_split [10] txt ! i)) = Some (marker v)"
    by (auto simp: standard_line_def Let_def split: if_splits option.splits)
  then have "try_patterns (take 4 standard_patterns) (py_strip (py_split [10] txt ! i))
             = Some (marker v)"
    using standard_colon_unreachable by simp
  then show "58 \<notin> set (marker v)" by (rule numeric_marker_no_colon)
next
  show "extract_standard_verses (ustr ''1:2 text'') =
       [\<lparr>marker = ustr ''1'', content = ustr ''1:2 text'', line_number = 1, type_tag = Verse\<rparr>]"
    by (simp add: segmenter_eval)
qed

theorem standard_colon_patterns_dead_witness:
  "\<lparr>marker = ustr ''12'', content = ustr ''12:34:56'', line_number = 1, type_tag = Verse\<rparr>
     \<in> set (extract_standard_verses (ustr ''12:34:56''))
   \<and> 58 \<notin> set (ustr ''12'')"
proof -
  have mem: "\<lparr>marker = ustr ''12'', content = ustr ''12:34:56'', line_number = 1,
      type_tag = Verse\<rparr> \<in> set (extract_standard_verses (ustr ''12:34:56''))"
    by (simp add: segmenter_eval)
  with standard_colon_patterns_dead [of "ustr ''12:34:56''"]
  have "58 \<notin> set (marker \<lparr>marker = ustr ''12'', content = ustr ''12:34:56'', line_number = 1,
      type_tag = Verse\<rparr>)"
    by blast
  with mem show ?thesis by simp
qed

section \<open>Searching: the scan finds the first matching offset\<close>

lemma search_from_Some:
  "search_from p prev s k = Some r \<longleftrightarrow>
     (\<exists>i \<le> length s. r = k + i \<and> rmatch p (prev_at prev s i) (drop i s) \<noteq> None
        \<and> (\<forall>j<i. rmatch p (prev_at prev s j) (drop j s) = None))"
proof (induction s arbitrary: prev k)
  case Nil
  show ?case by (auto simp: prev_at_def split: option.splits)
next
  case (Cons c cs)
  show ?case
  proof (cases "rmatch p prev (c # cs)")
    case (Some m)
    have "(\<exists>i \<le> length (c # cs). r = k + i \<and> rmatch p (prev_at prev (c # cs) i) (drop i (c # cs)) \<noteq> None
        \<and> (\<forall>j<i. rmatch p (prev_at prev (c # cs) j) (drop j (c # cs)) = None)) \<longleftrightarrow> r = k"
    proof
      assume "\<exists>i \<le> length (c # cs). r = k + i \<and> rmatch p (prev_at prev (c # cs) i) (drop i (c # cs)) \<noteq> None
        \<and> (\<forall>j<i. rmatch p (prev_at prev (c # cs) j) (drop j (c # cs)) = None)"
      then obtain i where i: "r = k + i"
        "\<forall>j<i. rmatch p (prev_at prev (c # cs) j) (drop j (c # cs)) = None" by blast
      have "i = 0"
      proof (rule ccontr)
        assume "i \<noteq> 0"
        then have "rmatch p (prev_at prev (c # cs) 0) (drop 0 (c # cs)) = None" using i(2) by blast
        with Some show False by (simp add: prev_at_def)
      qed
      with i show "r = k" by simp
    next
      assume "r = k"
      with Some have "0 \<le> length (c # cs) \<and> r = k + 0
         \<and> rmatch p (prev_at prev (c # cs) 0) (drop 0 (c # cs)) \<noteq> None
         \<and> (\<forall>j<0. rmatch p (prev_at prev (c # cs) j) (drop j (c # cs)) = None)"
        by (simp add: prev_at_def)
      then show "\<exists>i \<le> length (c # cs). r = k + i \<and> rmatch p (prev_at prev (c # cs) i) (drop i (c # cs)) \<noteq> None
        \<and> (\<forall>j<i. rmatch p (prev_at prev (c # cs) j) (drop j (c # cs)) = None)" by blast
    qed
    with Some show ?thesis by auto
  next
    case None
    have shift: "\<And>i. prev_at prev (c # cs) (Suc i) = prev_at (Some c) cs i"
      by (simp add: prev_at_def nth_Cons split: nat.splits)
    have "(\<exists>i \<le> length (c # cs). r = k + i \<and> rmatch p (prev_at prev (c # cs) i) (drop i (c # cs)) \<noteq> None
        \<and> (\<forall>j<i. rmatch p (prev_at prev (c # cs) j) (drop j (c # cs)) = None))
      \<longleftrightarrow> (\<exists>i \<le> length cs. r = Suc k + i \<and> rmatch p (prev_at (Some c) cs i) (drop i cs) \<noteq> None
        \<and> (\<forall>j<i. rmatch p (prev_at (Some c) cs j) (drop j cs) = None))"
      (is "?L \<longleftrightarrow> ?R")
    proof
      assume ?L
      then obtain i where i: "i \<le> length (c # cs)" "r = k + i"
        "rmatch p (prev_at prev (c # cs) i) (drop i (c # cs)) \<noteq> None"
        "\<forall>j<i. rmatch p (prev_at prev (c # cs) j) (drop j (c # cs)) = None" by blast
      have "i \<noteq> 0"
      proof
        assume "i = 0"
        with i(3) None show False by (simp add: prev_at_def)
      qed
      then obtain i' where i': "i = Suc i'" by (cases i) auto
      have "\<forall>j<i'. rmatch p (prev_at (Some c) cs j) (drop j cs) = None"
      proof (intro allI impI)
        fix j assume "j < i'"
        then have "Suc j < i" using i' by simp
        with i(4) have "rmatch p (prev_at prev (c # cs) (Suc j)) (drop (Suc j) (c # cs)) = None"
          by blast
        then show "rmatch p (prev_at (Some c) cs j) (drop j cs) = None" by (simp add: shift)
      qed
      moreover have "rmatch p (prev_at (Some c) cs i') (drop i' cs) \<noteq> None"
        using i(3) unfolding i' by (simp add: shift)
      ultimately show ?R using i(1,2) i' by auto
    next
      assume ?R
      then obtain i where i: "i \<le> length cs" "r = Suc k + i"
        "rmatch p (prev_at (Some c) cs i) (drop i cs) \<noteq> None"
        "\<forall>j<i. rmatch p (prev_at (Some c) cs j) (drop j cs) = None" by blast
      have "\<forall>j<Suc i. rmatch p (prev_at prev (c # cs) j) (drop j (c # cs)) = None"
      proof (intro allI impI)
        fix j assume j: "j < Suc i"
        show "rmatch p (prev_at prev (c # cs) j) (drop j (c # cs)) = None"
        proof (cases j)
          case 0
          with None show ?thesis by (simp add: prev_at_def)
        next
          case (Suc j')
          with j i(4) have "rmatch p (prev_at (Some c) cs j') (drop j' cs) = None" by simp
          then show ?thesis unfolding Suc by (simp add: shift)
        qed
      qed
      moreover have "rmatch p (prev_at prev (c # cs) (Suc i)) (drop (Suc i) (c # cs)) \<noteq> None"
        using i(3) by (simp add: shift)
      moreover have "Suc i \<le> length (c # cs)" "r = k + Suc i" using i(1,2) by simp_all
      ultimately show ?L by blast
    qed
    with None Cons.IH [of "Some c" "Suc k"] show ?thesis by simp
  qed
qed

lemma re_search_Some: "re_search p s = Some i \<longleftrightarrow> first_match_at p s i"
proof -
  have eq: "\<And>j. prev_at None s j = (if j = 0 then None else Some (s ! (j - 1)))"
    by (simp add: prev_at_def)
  have "re_search p s = Some i \<longleftrightarrow>
     (i \<le> length s \<and> rmatch p (prev_at None s i) (drop i s) \<noteq> None
        \<and> (\<forall>j<i. rmatch p (prev_at None s j) (drop j s) = None))"
    unfolding re_search_def search_from_Some by auto
  then show ?thesis
    unfolding first_match_at_def matches_at_def eq by auto
qed

lemma first_match_exists:
  assumes "matches_at p s i"
  shows "\<exists>k\<le>i. first_match_at p s k"
proof -
  let ?k = "LEAST k. matches_at p s k"
  have "matches_at p s ?k" using assms by (rule LeastI)
  moreover have "\<forall>j<?k. \<not> matches_at p s j" using not_less_Least by blast
  moreover have "?k \<le> i" using assms by (rule Least_le)
  ultimately show ?thesis unfolding first_match_at_def by blast
qed

lemma re_search_None: "re_search p s = None \<longleftrightarrow> (\<forall>i. \<not> matches_at p s i)"
proof
  assume n: "re_search p s = None"
  show "\<forall>i. \<not> matches_at p s i"
  proof (intro allI notI)
    fix i assume "matches_at p s i"
    then obtain k where "first_match_at p s k" using first_match_exists by blast
    then have "re_search p s = Some k" by (simp add: re_search_Some)
    with n show False by simp
  qed
next
  assume a: "\<forall>i. \<not> matches_at p s i"
  show "re_search p s = None"
  proof (cases "re_search p s")
    case None
    then show ?thesis .
  next
    case (Some k)
    then have "first_match_at p s k" by (simp add: re_search_Some)
    with a show ?thesis by (simp add: first_match_at_def)
  qed
qed

section \<open>The isolator looks only at the text from the start marker on\<close>

lemma oneof_prev: "rmatch (OneOf cl # r) prev s = rmatch (OneOf cl # r) prev' s"
  by (cases s) simp_all

lemma oneof_needs_char:
  assumes "matches_at (OneOf cl # r) s i"
  shows "i < length s"
proof (rule ccontr)
  assume "\<not> i < length s"
  then have "drop i s = []" by simp
  with assms show False by (simp add: matches_at_def)
qed

lemma matches_at_drop:
  assumes "s \<le> length t"
  shows "matches_at (OneOf cl # r) (drop s t) i \<longleftrightarrow> matches_at (OneOf cl # r) t (s + i)"
proof -
  have "drop i (drop s t) = drop (s + i) t" by (simp add: add.commute)
  moreover have "i \<le> length (drop s t) \<longleftrightarrow> s + i \<le> length t" using assms by auto
  ultimately show ?thesis
    unfolding matches_at_def
    using oneof_prev [of cl r "if i = 0 then None else Some (drop s t ! (i - 1))" "drop (s + i) t"
        "if s + i = 0 then None else Some (t ! (s + i - 1))"]
    by simp
qed

lemma chapter_pattern_head: "\<exists>cl r. chapter_pattern an n = OneOf cl # r"
  by (simp add: chapter_pattern_def ustr_def lit_ic_def)

lemma ocr_pattern_head: "\<exists>cl r. ocr_pattern an v n = OneOf cl # r"
  by (simp add: ocr_pattern_def ustr_def lit_ic_def)

lemma first_match_drop:
  assumes "first_match_at (OneOf cl # r) t s"
  shows "first_match_at (OneOf cl # r) (drop s t) 0" and "s < length t"
proof -
  from assms have m: "matches_at (OneOf cl # r) t s" by (simp add: first_match_at_def)
  then show "s < length t" by (rule oneof_needs_char)
  then have "matches_at (OneOf cl # r) (drop s t) 0"
    using m matches_at_drop [of s t cl r 0] by simp
  then show "first_match_at (OneOf cl # r) (drop s t) 0" by (simp add: first_match_at_def)
qed

lemma chapter_slice_drop:
  "s \<le> length t \<Longrightarrow> chapter_slice p (drop s t) 0 = chapter_slice p t s"
  by (simp add: chapter_slice_def drop_take split: option.splits)

lemma ocr_loop_first:
  "k < length ps \<Longrightarrow> (\<forall>j<k. re_search (fst (ps ! j)) t = None)
   \<Longrightarrow> re_search (fst (ps ! k)) t = Some s
   \<Longrightarrow> ocr_loop ps t = Some (chapter_slice (snd (ps ! k)) t s)"
proof (induction ps arbitrary: k)
  case Nil
  then show ?case by simp
next
  case (Cons p ps)
  obtain a b where p: "p = (a, b)" by (cases p)
  show ?case
  proof (cases k)
    case 0
    with Cons.prems p show ?thesis by simp
  next
    case (Suc k')
    with Cons.prems have "re_search (fst ((p # ps) ! 0)) t = None" by blast
    then have a: "re_search a t = None" using p by simp
    have "ocr_loop ps t = Some (chapter_slice (snd (ps ! k')) t s)"
    proof (rule Cons.IH)
      show "k' < length ps" using Cons.prems Suc by simp
      show "re_search (fst (ps ! k')) t = Some s" using Cons.prems Suc by simp
      show "\<forall>j<k'. re_search (fst (ps ! j)) t = None"
      proof (intro allI impI)
        fix j assume "j < k'"
        then have "Suc j < k" using Suc by simp
        with Cons.prems(2) have "re_search (fst ((p # ps) ! Suc j)) t = None" by blast
        then show "re_search (fst (ps ! j)) t = None" by simp
      qed
    qed
    with a p Suc show ?thesis by simp
  qed
qed

lemma ocr_loop_None:
  "(\<forall>p \<in> set ps. re_search (fst p) t = None) \<Longrightarrow> ocr_loop ps t = None"
  by (induction ps t rule: ocr_loop.induct) auto
section \<open>The claims about the chapter isolator\<close>

lemmas isolator_eval =
  isolate_chapter_def isolate_chapter_ocr_def ocr_patterns_def ocr_pattern_def chapter_slice_def
  chapter_pattern_def re_search_def ustr_def lit_ic_def str_nat.simps in_class_def
  uni_space_def space_ranges_def word_at_def is_word_def ascii_alpha_def
  uni_decimal_def decimal_ranges_def

text \<open>
  Claim C3.  When the start pattern of chapter \<open>N\<close> matches somewhere in the text and
  \<open>s\<close> is the first such offset, \<^verbatim>\<open>isolate_chapter\<close> returns the text from \<open>s\<close> up
  to, and without, the first offset \<open>e\<close> at or after \<open>s\<close> where the pattern of chapter
  \<open>N + 1\<close> matches; when that pattern matches nowhere from \<open>s\<close> on, it returns the text
  from \<open>s\<close> to the end.
\<close>

theorem isolate_chapter_span:
  assumes "first_match_at (chapter_pattern an N) txt s"
  shows "(\<forall>e. s \<le> e \<and> matches_at (chapter_pattern an (N + 1)) txt e
            \<and> (\<forall>j. s \<le> j \<and> j < e \<longrightarrow> \<not> matches_at (chapter_pattern an (N + 1)) txt j)
            \<longrightarrow> isolate_chapter an txt N = Some (drop s (take e txt)))
       \<and> ((\<forall>j. s \<le> j \<longrightarrow> \<not> matches_at (chapter_pattern an (N + 1)) txt j)
            \<longrightarrow> isolate_chapter an txt N = Some (drop s txt))"
proof -
  obtain cl r where hd: "chapter_pattern an N = OneOf cl # r"
    using chapter_pattern_head by blast
  obtain cl' r' where hd': "chapter_pattern an (N + 1) = OneOf cl' # r'"
    using chapter_pattern_head by blast
  from assms have s: "s < length txt" unfolding hd by (rule first_match_drop(2))
  then have ne: "txt \<noteq> []" by auto
  from assms have found: "re_search (chapter_pattern an N) txt = Some s"
    by (simp add: re_search_Some)
  have iso: "isolate_chapter an txt N = Some (chapter_slice (chapter_pattern an (N + 1)) txt s)"
    using ne found by (simp add: isolate_chapter_def)
  have shift: "\<And>i. matches_at (chapter_pattern an (N + 1)) (drop s txt) i
                 \<longleftrightarrow> matches_at (chapter_pattern an (N + 1)) txt (s + i)"
    unfolding hd' using s by (intro matches_at_drop) simp
  show ?thesis
  proof (intro conjI allI impI)
    fix e
    assume e: "s \<le> e \<and> matches_at (chapter_pattern an (N + 1)) txt e
            \<and> (\<forall>j. s \<le> j \<and> j < e \<longrightarrow> \<not> matches_at (chapter_pattern an (N + 1)) txt j)"
    then have "matches_at (chapter_pattern an (N + 1)) txt (s + (e - s))" by simp
    then have "matches_at (chapter_pattern an (N + 1)) (drop s txt) (e - s)"
      using shift by blast
    moreover have "\<forall>i < e - s. \<not> matches_at (chapter_pattern an (N + 1)) (drop s txt) i"
    proof (intro allI impI)
      fix i assume "i < e - s"
      then have "s \<le> s + i \<and> s + i < e" by simp
      with e have "\<not> matches_at (chapter_pattern an (N + 1)) txt (s + i)" by blast
      then show "\<not> matches_at (chapter_pattern an (N + 1)) (drop s txt) i"
        using shift by blast
    qed
    ultimately have "re_search (chapter_pattern an (N + 1)) (drop s txt) = Some (e - s)"
      by (simp add: re_search_Some first_match_at_def)
    with e iso show "isolate_chapter an txt N = Some (drop s (take e txt))"
      by (simp add: chapter_slice_def)
  next
    assume "\<forall>j. s \<le> j \<longrightarrow> \<not> matches_at (chapter_pattern an (N + 1)) txt j"
    then have "\<forall>i. \<not> matches_at (chapter_pattern an (N + 1)) txt (s + i)" by simp
    then have "\<forall>i. \<not> matches_at (chapter_pattern an (N + 1)) (drop s txt) i"
      using shift by blast
    then have "re_search (chapter_pattern an (N + 1)) (drop s txt) = None"
      by (simp add: re_search_None)
    with iso show "isolate_chapter an txt N = Some (drop s txt)"
      by (simp add: chapter_slice_def)
  qed
qed

theorem isolate_chapter_span_witness:
  "first_match_at (chapter_pattern ascii_alpha 5) (ustr ''xx CHAPTER 5 foo CHAPTER 6 bar'') 3
   \<and> first_match_at (chapter_pattern ascii_alpha 6) (ustr ''xx CHAPTER 5 foo CHAPTER 6 bar'') 17
   \<and> isolate_chapter ascii_alpha (ustr ''xx CHAPTER 5 foo CHAPTER 6 bar'') 5
       = Some (ustr ''CHAPTER 5 foo '')
   \<and> (\<forall>j. \<not> matches_at (chapter_pattern ascii_alpha 7) (ustr ''xx CHAPTER 5 foo CHAPTER 6 bar'') j)
   \<and> isolate_chapter ascii_alpha (ustr ''xx CHAPTER 5 foo CHAPTER 6 bar'') 6
       = Some (ustr ''CHAPTER 6 bar'')"
proof -
  let ?t = "ustr ''xx CHAPTER 5 foo CHAPTER 6 bar''"
  have s5: "first_match_at (chapter_pattern ascii_alpha 5) ?t 3"
    unfolding re_search_Some [symmetric] by (simp add: isolator_eval)
  have s6: "first_match_at (chapter_pattern ascii_alpha 6) ?t 17"
    unfolding re_search_Some [symmetric] by (simp add: isolator_eval)
  have s7: "\<forall>j. \<not> matches_at (chapter_pattern ascii_alpha 7) ?t j"
    unfolding re_search_None [symmetric] by (simp add: isolator_eval)
  have cut: "drop 3 (take 17 ?t) = ustr ''CHAPTER 5 foo ''" "drop 17 ?t = ustr ''CHAPTER 6 bar''"
    by (simp_all add: ustr_def)
  from s6 have e: "3 \<le> (17::nat) \<and> matches_at (chapter_pattern ascii_alpha (5 + 1)) ?t 17
      \<and> (\<forall>j. 3 \<le> j \<and> j < 17 \<longrightarrow> \<not> matches_at (chapter_pattern ascii_alpha (5 + 1)) ?t j)"
    by (simp add: first_match_at_def)
  have r5: "isolate_chapter ascii_alpha ?t 5 = Some (drop 3 (take 17 ?t))"
    using isolate_chapter_span [OF s5] e by blast
  have "\<forall>j. 17 \<le> j \<longrightarrow> \<not> matches_at (chapter_pattern ascii_alpha (6 + 1)) ?t j"
    using s7 by simp
  then have r6: "isolate_chapter ascii_alpha ?t 6 = Some (drop 17 ?t)"
    using isolate_chapter_span [OF s6] by blast
  from s5 s6 s7 r5 r6 cut show ?thesis by simp
qed

text \<open>
  Claim C4.  The result depends only on the text from the start marker on.  In the
  plain script, when \<open>s\<close> is the first offset where the pattern of chapter \<open>N\<close>
  matches, isolating \<open>N\<close> in the whole text gives what isolating it in the text from
  \<open>s\<close> on gives; in the OCR script the same holds for the first pair of patterns whose
  start pattern matches at all.  So nothing before \<open>s\<close>, a match of the end pattern
  included, can end the slice.
\<close>

theorem isolation_ignores_text_before_start:
  "(first_match_at (chapter_pattern an N) txt s
      \<longrightarrow> isolate_chapter an txt N = isolate_chapter an (drop s txt) N)
   \<and> (k < length (ocr_patterns an N)
       \<and> (\<forall>j<k. \<forall>i. \<not> matches_at (fst (ocr_patterns an N ! j)) txt i)
       \<and> first_match_at (fst (ocr_patterns an N ! k)) txt s
      \<longrightarrow> isolate_chapter_ocr an txt N = isolate_chapter_ocr an (drop s txt) N)"
proof (intro conjI impI)
  assume fm: "first_match_at (chapter_pattern an N) txt s"
  obtain cl r where hd: "chapter_pattern an N = OneOf cl # r"
    using chapter_pattern_head by blast
  from fm have s: "s < length txt" and fm0: "first_match_at (chapter_pattern an N) (drop s txt) 0"
    unfolding hd by (rule first_match_drop(2), rule first_match_drop(1))
  from s have ne: "txt \<noteq> []" "drop s txt \<noteq> []" by auto
  from fm fm0 have "re_search (chapter_pattern an N) txt = Some s"
    "re_search (chapter_pattern an N) (drop s txt) = Some 0"
    by (simp_all add: re_search_Some)
  with ne s show "isolate_chapter an txt N = isolate_chapter an (drop s txt) N"
    by (simp add: isolate_chapter_def chapter_slice_drop)
next
  let ?ps = "ocr_patterns an N"
  assume a: "k < length ?ps
       \<and> (\<forall>j<k. \<forall>i. \<not> matches_at (fst (?ps ! j)) txt i)
       \<and> first_match_at (fst (?ps ! k)) txt s"
  have "\<forall>p \<in> set ?ps. \<exists>cl r. fst p = OneOf cl # r"
    using ocr_pattern_head by (auto simp: ocr_patterns_def)
  then have heads: "\<And>j. j < length ?ps \<Longrightarrow> \<exists>cl r. fst (?ps ! j) = OneOf cl # r"
    using nth_mem by blast
  obtain cl r where hd: "fst (?ps ! k) = OneOf cl # r" using heads a by blast
  from a have s: "s < length txt" and fm0: "first_match_at (fst (?ps ! k)) (drop s txt) 0"
    unfolding hd by (blast intro: first_match_drop(2), blast intro: first_match_drop(1))
  from s have ne: "txt \<noteq> []" "drop s txt \<noteq> []" by auto
  have whole: "ocr_loop ?ps txt = Some (chapter_slice (snd (?ps ! k)) txt s)"
  proof (rule ocr_loop_first)
    show "k < length ?ps" using a by simp
    show "\<forall>j<k. re_search (fst (?ps ! j)) txt = None" using a by (simp add: re_search_None)
    show "re_search (fst (?ps ! k)) txt = Some s" using a by (simp add: re_search_Some)
  qed
  have rest: "ocr_loop ?ps (drop s txt) = Some (chapter_slice (snd (?ps ! k)) (drop s txt) 0)"
  proof (rule ocr_loop_first)
    show "k < length ?ps" using a by simp
    show "re_search (fst (?ps ! k)) (drop s txt) = Some 0" using fm0 by (simp add: re_search_Some)
    show "\<forall>j<k. re_search (fst (?ps ! j)) (drop s txt) = None"
    proof (intro allI impI)
      fix j assume j: "j < k"
      then obtain cl' r' where hj: "fst (?ps ! j) = OneOf cl' # r'" using heads a by fastforce
      have "\<forall>i. \<not> matches_at (fst (?ps ! j)) txt (s + i)" using a j by blast
      then have "\<forall>i. \<not> matches_at (fst (?ps ! j)) (drop s txt) i"
        unfolding hj using s by (simp add: matches_at_drop)
      then show "re_search (fst (?ps ! j)) (drop s txt) = None" by (simp add: re_search_None)
    qed
  qed
  from whole rest ne s show "isolate_chapter_ocr an txt N = isolate_chapter_ocr an (drop s txt) N"
    by (simp add: isolate_chapter_ocr_def chapter_slice_drop)
qed

theorem isolation_ignores_text_before_start_witness:
  "first_match_at (chapter_pattern ascii_alpha 5)
       (ustr ''see CHAPTER 6. CHAPTER 5 foo CHAPTER 6 bar'') 15
   \<and> matches_at (chapter_pattern ascii_alpha 6)
       (ustr ''see CHAPTER 6. CHAPTER 5 foo CHAPTER 6 bar'') 4
   \<and> isolate_chapter ascii_alpha (ustr ''see CHAPTER 6. CHAPTER 5 foo CHAPTER 6 bar'') 5
       = Some (ustr ''CHAPTER 5 foo '')
   \<and> isolate_chapter_ocr ascii_alpha (ustr ''see CHAPTER 6. CHAPTER 5 foo CHAPTER 6 bar'') 5
       = Some (ustr ''CHAPTER 5 foo '')"
proof -
  let ?t = "ustr ''see CHAPTER 6. CHAPTER 5 foo CHAPTER 6 bar''"
  have s5: "first_match_at (chapter_pattern ascii_alpha 5) ?t 15"
    unfolding re_search_Some [symmetric] by (simp add: isolator_eval)
  have early: "matches_at (chapter_pattern ascii_alpha 6) ?t 4"
    by (simp add: matches_at_def isolator_eval)
  have d: "drop 15 ?t = ustr ''CHAPTER 5 foo CHAPTER 6 bar''" by (simp add: ustr_def)
  have tail: "isolate_chapter ascii_alpha (ustr ''CHAPTER 5 foo CHAPTER 6 bar'') 5
       = Some (ustr ''CHAPTER 5 foo '')"
    by (simp add: isolator_eval)
  have tail_ocr: "isolate_chapter_ocr ascii_alpha (ustr ''CHAPTER 5 foo CHAPTER 6 bar'') 5
       = Some (ustr ''CHAPTER 5 foo '')"
    by (simp add: isolator_eval)
  have k: "0 < length (ocr_patterns ascii_alpha 5)
       \<and> (\<forall>j<0. \<forall>i. \<not> matches_at (fst (ocr_patterns ascii_alpha 5 ! j)) ?t i)
       \<and> first_match_at (fst (ocr_patterns ascii_alpha 5 ! 0)) ?t 15"
    using s5 by (simp add: ocr_patterns_def ocr_pattern_def chapter_pattern_def)
  have "isolate_chapter ascii_alpha ?t 5 = isolate_chapter ascii_alpha (drop 15 ?t) 5"
    using isolation_ignores_text_before_start [of ascii_alpha 5 ?t 15 0] s5 by blast
  moreover have "isolate_chapter_ocr ascii_alpha ?t 5
      = isolate_chapter_ocr ascii_alpha (drop 15 ?t) 5"
    using isolation_ignores_text_before_start [of ascii_alpha 5 ?t 15 0] k by blast
  ultimately show ?thesis using s5 early tail tail_ocr unfolding d by simp
qed

text \<open>
  Claim C9.  When the start pattern matches nowhere in the text (for the OCR script:
  when none of the four start patterns does), the function returns \<open>None\<close>; it has no
  other way out, the model being total.
\<close>

theorem isolate_chapter_not_found:
  "((\<forall>i. \<not> matches_at (chapter_pattern an N) txt i) \<longrightarrow> isolate_chapter an txt N = None)
   \<and> ((\<forall>p \<in> set (ocr_patterns an N). \<forall>i. \<not> matches_at (fst p) txt i)
        \<longrightarrow> isolate_chapter_ocr an txt N = None)"
proof (intro conjI impI)
  assume "\<forall>i. \<not> matches_at (chapter_pattern an N) txt i"
  then have "re_search (chapter_pattern an N) txt = None" by (simp add: re_search_None)
  then show "isolate_chapter an txt N = None" by (simp add: isolate_chapter_def)
next
  assume "\<forall>p \<in> set (ocr_patterns an N). \<forall>i. \<not> matches_at (fst p) txt i"
  then have "\<forall>p \<in> set (ocr_patterns an N). re_search (fst p) txt = None"
    by (simp add: re_search_None)
  then have "ocr_loop (ocr_patterns an N) txt = None" by (rule ocr_loop_None)
  then show "isolate_chapter_ocr an txt N = None" by (simp add: isolate_chapter_ocr_def)
qed

theorem isolate_chapter_not_found_witness:
  "(\<forall>i. \<not> matches_at (chapter_pattern ascii_alpha 5) (ustr ''CHAPTER 4 foo 5'') i)
   \<and> isolate_chapter ascii_alpha (ustr ''CHAPTER 4 foo 5'') 5 = None
   \<and> \<not> (\<exists>p \<in> set (ocr_patterns ascii_alpha 5). \<exists>i. matches_at (fst p) (ustr ''CHAPTER 4 foo 5'') i)
   \<and> isolate_chapter_ocr ascii_alpha (ustr ''CHAPTER 4 foo 5'') 5 = None"
proof -
  let ?t = "ustr ''CHAPTER 4 foo 5''"
  have a: "\<forall>i. \<not> matches_at (chapter_pattern ascii_alpha 5) ?t i"
    unfolding re_search_None [symmetric] by (simp add: isolator_eval)
  have "\<forall>p \<in> set (ocr_patterns ascii_alpha 5). re_search (fst p) ?t = None"
    by (simp add: isolator_eval)
  then have b: "\<forall>p \<in> set (ocr_patterns ascii_alpha 5). \<forall>i. \<not> matches_at (fst p) ?t i"
    by (simp add: re_search_None)
  from isolate_chapter_not_found [of ascii_alpha 5 ?t] a b show ?thesis by blast
qed

section \<open>The brace span\<close>

lemma find_from_eq:
  "find_from c s i = (if c \<in> set s then int (i + length (takeWhile (\<lambda>x. x \<noteq> c) s)) else - 1)"
  by (induction s arbitrary: i) auto

lemma py_find_eq:
  "py_find c s = (if c \<in> set s then int (length (takeWhile (\<lambda>x. x \<noteq> c) s)) else - 1)"
  by (simp add: py_find_def find_from_eq)

lemma py_rfind_eq:
  "py_rfind c s =
     (if c \<in> set s then int (length s) - 1 - int (length (takeWhile (\<lambda>x. x \<noteq> c) (rev s)))
      else - 1)"
  by (simp add: py_rfind_def py_find_eq Let_def)

lemma takeWhile_less: "c \<in> set s \<Longrightarrow> length (takeWhile (\<lambda>x. x \<noteq> c) s) < length s"
  by (induction s) auto

lemma take_as_rev_drop:
  "k \<le> length s \<Longrightarrow> take (length s - k) s = rev (drop k (rev s))"
  by (simp add: rev_drop)

lemma cut_after_last:
  assumes "c \<in> set s"
  shows "take (nat (int (length s) - 1 - int (length (takeWhile (\<lambda>x. x \<noteq> c) (rev s))) + 1)) s
         = rev (dropWhile (\<lambda>x. x \<noteq> c) (rev s))"
proof -
  let ?k = "length (takeWhile (\<lambda>x. x \<noteq> c) (rev s))"
  have k: "?k < length s" using takeWhile_less [of c "rev s"] assms by simp
  then have "nat (int (length s) - 1 - int ?k + 1) = length s - ?k" by simp
  moreover have "take (length s - ?k) s = rev (drop ?k (rev s))"
    using k by (simp add: take_as_rev_drop)
  moreover have "drop ?k (rev s) = dropWhile (\<lambda>x. x \<noteq> c) (rev s)"
    by (rule dropWhile_eq_drop [symmetric])
  ultimately show ?thesis by simp
qed

lemma two_ends: "xs \<noteq> [] \<Longrightarrow> hd xs \<noteq> last xs \<Longrightarrow> 2 \<le> length xs"
  by (cases xs) (auto simp: Suc_le_eq split: if_splits)

lemma span_code:
  "(let first_brace = py_find 123 s; last_brace = py_rfind 125 s
    in if first_brace \<noteq> - 1 \<and> last_brace \<noteq> - 1 \<and> last_brace > first_brace
       then drop (nat first_brace) (take (nat (last_brace + 1)) s) else [])
   = brace_span s"
proof (cases "123 \<in> set s")
  case False
  then have e: "dropWhile (\<lambda>c. c \<noteq> 123) s = []" by (auto simp: dropWhile_eq_Nil_conv)
  show ?thesis unfolding brace_span_def e using False by (simp add: py_find_eq Let_def)
next
  case True
  let ?p = "takeWhile (\<lambda>c. c \<noteq> 123) s" and ?u = "dropWhile (\<lambda>c. c \<noteq> 123) s"
  have s: "s = ?p @ ?u" by simp
  have f: "py_find 123 s = int (length ?p)" using True by (simp add: py_find_eq)
  have dropf: "\<And>xs. drop (length ?p) (?p @ xs) = xs" by simp
  from True have une: "?u \<noteq> []" by simp
  then have hdu: "hd ?u = 123" using hd_dropWhile [of "\<lambda>c. c \<noteq> 123" s] by simp
  show ?thesis
  proof (cases "125 \<in> set ?u")
    case in_u: True
    then have in_s: "125 \<in> set s" using set_dropWhileD by fast
    have "dropWhile (\<lambda>c. c \<noteq> 125) (rev s) = dropWhile (\<lambda>c. c \<noteq> 125) (rev ?u @ rev ?p)"
      by (metis rev_append s)
    also have "\<dots> = dropWhile (\<lambda>c. c \<noteq> 125) (rev ?u) @ rev ?p"
      using in_u by (intro dropWhile_append1 [of 125]) simp_all
    finally have cut: "rev (dropWhile (\<lambda>c. c \<noteq> 125) (rev s)) = ?p @ brace_span s"
      by (simp add: brace_span_def)
    have l: "py_rfind 125 s
        = int (length s) - 1 - int (length (takeWhile (\<lambda>x. x \<noteq> 125) (rev s)))"
      using in_s by (simp add: py_rfind_eq)
    have tk: "take (nat (py_rfind 125 s + 1)) s = ?p @ brace_span s"
      unfolding l using cut_after_last [OF in_s] cut by simp
    have ne: "dropWhile (\<lambda>c. c \<noteq> 125) (rev ?u) \<noteq> []" using in_u by simp
    have "hd (rev (dropWhile (\<lambda>c. c \<noteq> 125) (rev ?u))) = 123 \<and>
          last (rev (dropWhile (\<lambda>c. c \<noteq> 125) (rev ?u))) = 125"
    proof -
      have h: "hd (dropWhile (\<lambda>c. c \<noteq> 125) (rev ?u)) = 125"
        using ne hd_dropWhile [of "\<lambda>c. c \<noteq> 125" "rev ?u"] by simp
      obtain w where w: "rev ?u = w @ dropWhile (\<lambda>c. c \<noteq> 125) (rev ?u)"
        by (metis takeWhile_dropWhile_id)
      then have "?u = rev (dropWhile (\<lambda>c. c \<noteq> 125) (rev ?u)) @ rev w"
        by (metis rev_append rev_rev_ident)
      with ne hdu have "hd (rev (dropWhile (\<lambda>c. c \<noteq> 125) (rev ?u))) = 123"
        by (metis hd_append2 rev_is_Nil_conv)
      moreover have "last (rev (dropWhile (\<lambda>c. c \<noteq> 125) (rev ?u))) = 125"
        using ne h by (simp add: last_rev)
      ultimately show ?thesis by blast
    qed
    then have two: "2 \<le> length (brace_span s)"
      unfolding brace_span_def using ne by (intro two_ends) simp_all
    have "length (take (nat (py_rfind 125 s + 1)) s) = length ?p + length (brace_span s)"
      using tk by simp
    then have "nat (py_rfind 125 s + 1) \<ge> length ?p + 2" using two by simp
    then have gt: "py_rfind 125 s > py_find 123 s" unfolding f by linarith
    have "py_rfind 125 s \<noteq> - 1" using gt f by linarith
    with gt f tk show ?thesis by (simp add: Let_def)
  next
    case not_u: False
    then have "dropWhile (\<lambda>c. c \<noteq> 125) (rev ?u) = []"
      by (auto simp: dropWhile_eq_Nil_conv)
    then have bs: "brace_span s = []" unfolding brace_span_def by simp
    show ?thesis
    proof (cases "125 \<in> set s")
      case False
      with bs show ?thesis by (simp add: py_rfind_eq Let_def)
    next
      case in_s: True
      with not_u s have in_p: "125 \<in> set ?p" by (metis Un_iff set_append)
      have "takeWhile (\<lambda>x. x \<noteq> 125) (rev s) = takeWhile (\<lambda>x. x \<noteq> 125) (rev ?u @ rev ?p)"
        by (metis rev_append s)
      also have "\<dots> = rev ?u @ takeWhile (\<lambda>x. x \<noteq> 125) (rev ?p)"
        using not_u by (intro takeWhile_append2) auto
      finally have "length (takeWhile (\<lambda>x. x \<noteq> 125) (rev s))
          = length ?u + length (takeWhile (\<lambda>x. x \<noteq> 125) (rev ?p))" by simp
      moreover have "length s = length ?p + length ?u" by (metis length_append s)
      ultimately have "py_rfind 125 s < py_find 123 s"
        unfolding f using in_s by (simp add: py_rfind_eq)
      with bs show ?thesis by (simp add: Let_def)
    qed
  qed
qed

lemma brace_span_prefix_free:
  assumes "123 \<notin> set a"
  shows "brace_span (a @ s) = brace_span s"
proof -
  have "dropWhile (\<lambda>c. c \<noteq> 123) (a @ s) = dropWhile (\<lambda>c. c \<noteq> 123) s"
    using assms by (intro dropWhile_append2) auto
  then show ?thesis by (simp add: brace_span_def)
qed

lemma brace_span_suffix_free:
  assumes "123 \<notin> set b" "125 \<notin> set b"
  shows "brace_span (s @ b) = brace_span s"
proof (cases "123 \<in> set s")
  case True
  then have "dropWhile (\<lambda>c. c \<noteq> 123) (s @ b) = dropWhile (\<lambda>c. c \<noteq> 123) s @ b"
    by (intro dropWhile_append1 [of 123]) simp_all
  moreover have "\<And>u. dropWhile (\<lambda>c. c \<noteq> 125) (rev b @ u) = dropWhile (\<lambda>c. c \<noteq> 125) u"
    using assms(2) by (intro dropWhile_append2) auto
  ultimately show ?thesis by (simp add: brace_span_def)
next
  case False
  with assms(1) have e: "dropWhile (\<lambda>c. c \<noteq> 123) (s @ b) = []"
    "dropWhile (\<lambda>c. c \<noteq> 123) s = []" by (auto simp: dropWhile_eq_Nil_conv)
  show ?thesis unfolding brace_span_def e by simp
qed

lemma brace_span_needs_pair:
  assumes "\<not> subseq [123, 125] s"
  shows "brace_span s = []"
proof (rule ccontr)
  assume ne: "brace_span s \<noteq> []"
  let ?u = "dropWhile (\<lambda>c. c \<noteq> 123) s"
  from ne have d: "dropWhile (\<lambda>c. c \<noteq> 125) (rev ?u) \<noteq> []" by (simp add: brace_span_def)
  have une: "?u \<noteq> []"
  proof
    assume "?u = []"
    with d show False by simp
  qed
  then obtain u' where u: "?u = 123 # u'"
    using hd_dropWhile [of "\<lambda>c. c \<noteq> 123" s] by (cases ?u) auto
  from d have "125 \<in> set ?u" by (auto simp: dropWhile_eq_Nil_conv)
  with u have "125 \<in> set u'" by simp
  then have "subseq [125] u'" by (simp add: subseq_singleton_left)
  then have "subseq [123, 125] ?u" unfolding u by simp
  moreover have "subseq ?u s" by (intro suffix_imp_subseq suffix_dropWhile)
  ultimately have "subseq [123, 125] s" by (rule subseq_order.order_trans)
  with assms show False by simp
qed

section \<open>What the three substitutions remove\<close>

lemma sub_from_single_class:
  "sub_from [OneOf cl] prev s = filter (\<lambda>c. \<not> in_class cl c) s"
  by (induction s arbitrary: prev) auto

lemma sub_from_at_begin_later: "sub_from (AtBegin # r) (Some x) s = s"
  by (induction s arbitrary: x) auto

lemma sub_from_at_begin:
  "\<exists>b. s = b @ sub_from (AtBegin # r) None s \<and> (\<forall>c \<in> set b. \<exists>a \<in> set r. atom_accepts a c)"
proof (cases s)
  case Nil
  then show ?thesis by simp
next
  case (Cons c cs)
  show ?thesis
  proof (cases "rmatch (AtBegin # r) None s")
    case None
    with Cons have "sub_from (AtBegin # r) None s = s"
      by (simp add: sub_from_at_begin_later)
    then show ?thesis by simp
  next
    case (Some m)
    show ?thesis
    proof (cases "m = []")
      case True
      with Some Cons have "sub_from (AtBegin # r) None s = s"
        by (simp add: sub_from_at_begin_later)
      then show ?thesis by simp
    next
      case False
      with Some Cons have "sub_from (AtBegin # r) None s = drop (length m) s"
        by (simp add: sub_from_at_begin_later)
      moreover from Some obtain t where "s = m @ t" using rmatch_prefix by blast
      moreover from Some have "\<forall>c \<in> set m. \<exists>a \<in> set (AtBegin # r). atom_accepts a c"
        by (rule rmatch_chars)
      ultimately have "s = m @ sub_from (AtBegin # r) None s
          \<and> (\<forall>c \<in> set m. \<exists>a \<in> set r. atom_accepts a c)" by auto
      then show ?thesis by blast
    qed
  qed
qed

lemma rmatch_at_end:
  "rmatch p prev s = Some m \<Longrightarrow> p \<noteq> [] \<Longrightarrow> last p = AtEnd \<Longrightarrow> s = m \<or> s = m @ [10]"
proof (induction p prev s arbitrary: m rule: rmatch.induct)
  case (10 w r prev s)
  then have r: "r \<noteq> []" "last r = AtEnd" by (auto split: if_splits)
  show ?case
  proof (cases "w \<noteq> [] \<and> starts_with w s")
    case True
    note guard = this
    show ?thesis
    proof (cases "rmatch r (Some (last w)) (drop (length w) s)")
      case None
      with guard "10.prems"(1) "10.IH"(2) r show ?thesis by simp
    next
      case (Some m')
      with guard "10.prems"(1) have m: "m = w @ m'" by simp
      from "10.IH"(1) [OF guard Some r]
      have "drop (length w) s = m' \<or> drop (length w) s = m' @ [10]" .
      with starts_with_drop [of w s] guard m show ?thesis by (metis append.assoc)
    qed
  next
    case False
    with "10.prems"(1) "10.IH"(3) r show ?thesis by simp
  qed
qed (auto split: if_splits option.splits)

lemma sub_from_at_end:
  assumes "p \<noteq> []" "last p = AtEnd"
  shows "10 \<notin> set s \<Longrightarrow>
    \<exists>b. s = sub_from p prev s @ b \<and> (\<forall>c \<in> set b. \<exists>a \<in> set p. atom_accepts a c)"
proof (induction s arbitrary: prev)
  case Nil
  show ?case by simp
next
  case (Cons c cs)
  then have cs: "10 \<notin> set cs" by simp
  show ?case
  proof (cases "rmatch p prev (c # cs)")
    case None
    from Cons.IH [OF cs, of "Some c"] None show ?thesis by auto
  next
    case (Some m)
    show ?thesis
    proof (cases "m = []")
      case True
      from Cons.IH [OF cs, of "Some c"] Some True show ?thesis by auto
    next
      case False
      have "c # cs \<noteq> m @ [10]"
      proof
        assume "c # cs = m @ [10]"
        then have "10 \<in> set (c # cs)" by (metis in_set_conv_decomp)
        with Cons.prems show False by simp
      qed
      with rmatch_at_end [OF Some assms] have whole: "c # cs = m" by blast
      then have m: "m = c # cs" by simp
      have "sub_from p prev (c # cs) = []" using Some unfolding m by simp
      moreover from Some have "\<forall>x \<in> set m. \<exists>a \<in> set p. atom_accepts a x" by (rule rmatch_chars)
      ultimately have "c # cs = sub_from p prev (c # cs) @ m
          \<and> (\<forall>x \<in> set m. \<exists>a \<in> set p. atom_accepts a x)" using whole by simp
      then show ?thesis by blast
    qed
  qed
qed

lemma py_strip_decompose:
  "\<exists>a b. s = a @ py_strip s @ b \<and> (\<forall>c \<in> set a. uni_space c) \<and> (\<forall>c \<in> set b. uni_space c)"
proof -
  let ?l = "dropWhile uni_space s"
  have 1: "s = takeWhile uni_space s @ ?l" by simp
  have "rev ?l = takeWhile uni_space (rev ?l) @ dropWhile uni_space (rev ?l)" by simp
  then have 2: "?l = rev (dropWhile uni_space (rev ?l)) @ rev (takeWhile uni_space (rev ?l))"
    by (metis rev_append rev_rev_ident)
  have "s = takeWhile uni_space s @ py_strip s @ rev (takeWhile uni_space (rev ?l))"
    unfolding py_strip_def py_lstrip_def py_rstrip_def using 1 2 by metis
  moreover have "\<forall>c \<in> set (takeWhile uni_space s). uni_space c"
    using set_takeWhileD by fast
  moreover have "\<forall>c \<in> set (rev (takeWhile uni_space (rev ?l))). uni_space c"
    using set_takeWhileD by fastforce
  ultimately show ?thesis by blast
qed
lemma fences_keep_brace_span:
  assumes nl: "10 \<notin> set t1"
  shows "brace_span
      (re_sub_del [Many0 [CatSpace], lit 96, lit 96, lit 96, AtEnd]
        (re_sub_del [AtBegin, lit 96, lit 96, lit 96, MaybeLit (ustr ''json''), Many0 [CatSpace]]
          (py_strip t1)))
    = brace_span t1"
proof -
  let ?p2 = "[lit 96, lit 96, lit 96, MaybeLit (ustr ''json''), Many0 [CatSpace]]"
  let ?p3 = "[Many0 [CatSpace], lit 96, lit 96, lit 96, AtEnd]"
  let ?t2 = "re_sub_del (AtBegin # ?p2) (py_strip t1)"
  let ?t3 = "re_sub_del ?p3 ?t2"
  have sp: "\<not> uni_space 123" "\<not> uni_space 125"
    by (simp_all add: uni_space_def space_ranges_def)
  have free2: "\<And>c. \<exists>a \<in> set ?p2. atom_accepts a c \<Longrightarrow> c \<noteq> 123 \<and> c \<noteq> 125"
    using sp by (auto simp: lit_def in_class_def ustr_def)
  have free3: "\<And>c. \<exists>a \<in> set ?p3. atom_accepts a c \<Longrightarrow> c \<noteq> 123 \<and> c \<noteq> 125"
    using sp by (auto simp: lit_def in_class_def)
  obtain a1 b1 where s1: "t1 = a1 @ py_strip t1 @ b1"
    and a1: "\<forall>c \<in> set a1. uni_space c" and b1: "\<forall>c \<in> set b1. uni_space c"
    using py_strip_decompose by blast
  obtain a2 where s2: "py_strip t1 = a2 @ ?t2"
    and a2: "\<forall>c \<in> set a2. \<exists>a \<in> set ?p2. atom_accepts a c"
    unfolding re_sub_del_def using sub_from_at_begin [of "py_strip t1" ?p2] by blast
  have "set ?t2 \<subseteq> set t1"
  proof -
    have "set ?t2 \<subseteq> set (py_strip t1)" using s2 by (metis Un_upper2 set_append)
    moreover have "set (py_strip t1) \<subseteq> set t1" using s1 by (metis Un_upper1 Un_upper2 set_append subset_trans)
    ultimately show ?thesis by blast
  qed
  with nl have nl2: "10 \<notin> set ?t2" by blast
  obtain b3 where s3: "?t2 = ?t3 @ b3"
    and b3: "\<forall>c \<in> set b3. \<exists>a \<in> set ?p3. atom_accepts a c"
    unfolding re_sub_del_def using sub_from_at_end [of ?p3 ?t2 None] nl2
    unfolding re_sub_del_def by auto
  have fa1: "123 \<notin> set a1" using a1 sp by blast
  have fb1: "123 \<notin> set b1" "125 \<notin> set b1" using b1 sp by blast+
  have fa2: "123 \<notin> set a2" using a2 free2 by blast
  have fb3: "123 \<notin> set b3" "125 \<notin> set b3" using b3 free3 by blast+
  have "brace_span t1 = brace_span (a1 @ (py_strip t1 @ b1))" using s1 by simp
  also have "\<dots> = brace_span (py_strip t1 @ b1)" using fa1 by (rule brace_span_prefix_free)
  also have "\<dots> = brace_span (py_strip t1)" using fb1 by (rule brace_span_suffix_free)
  also have "\<dots> = brace_span (a2 @ ?t2)" using s2 by simp
  also have "\<dots> = brace_span ?t2" using fa2 by (rule brace_span_prefix_free)
  also have "\<dots> = brace_span (?t3 @ b3)" using s3 by simp
  also have "\<dots> = brace_span ?t3" using fb3 by (rule brace_span_suffix_free)
  finally show ?thesis by simp
qed

section \<open>The claim about the cleaning routine\<close>

text \<open>
  Claim C6.  The routine removes the ASCII control characters and the code fences at
  both ends and returns the text from the first \<^verbatim>\<open>{\<close> through the last \<^verbatim>\<open>}\<close> of
  what remains.  Removing the fences never changes that part, so the result is the
  brace span of the text without its control characters.  On the reply
  \<^verbatim>\<open>Here you go:\n```json\n{"a":1}\n```\nThanks\<close> the result is \<^verbatim>\<open>{"a":1}\<close>, and on
  a text with no \<^verbatim>\<open>{\<close> that has a \<^verbatim>\<open>}\<close> somewhere behind it (that is, of which
  \<^verbatim>\<open>{}\<close> is no subsequence) the result is empty.
\<close>

theorem clean_response_text_brace_span:
  "clean_response_text txt = brace_span (filter (\<lambda>c. \<not> (c \<le> 31 \<or> c = 127)) txt)
   \<and> clean_response_text
         (ustr ''Here you go:'' @ [10, 96, 96, 96] @ ustr ''json''
          @ [10, 123, 34, 97, 34, 58, 49, 125, 10, 96, 96, 96, 10] @ ustr ''Thanks'')
       = [123, 34, 97, 34, 58, 49, 125]
   \<and> (\<not> subseq [123, 125] txt \<longrightarrow> clean_response_text txt = [])"
proof -
  let ?t1 = "filter (\<lambda>c. \<not> (c \<le> 31 \<or> c = 127)) txt"
  have t1: "re_sub_del [OneOf [Range 0 31, Chr 127]] txt = ?t1"
    by (simp add: re_sub_del_def sub_from_single_class in_class_def)
  have nl: "10 \<notin> set ?t1" by simp
  have general: "clean_response_text txt = brace_span ?t1"
    unfolding clean_response_text_def t1
    using span_code fences_keep_brace_span [OF nl] by (simp add: Let_def)
  have example: "clean_response_text
         (ustr ''Here you go:'' @ [10, 96, 96, 96] @ ustr ''json''
          @ [10, 123, 34, 97, 34, 58, 49, 125, 10, 96, 96, 96, 10] @ ustr ''Thanks'')
       = [123, 34, 97, 34, 58, 49, 125]"
    by (simp add: clean_response_text_def re_sub_del_def ustr_def in_class_def lit_def
        py_strip_def py_lstrip_def py_rstrip_def uni_space_def space_ranges_def
        py_find_def py_rfind_def Let_def)
  have empty: "\<not> subseq [123, 125] txt \<longrightarrow> clean_response_text txt = []"
  proof
    assume no: "\<not> subseq [123, 125] txt"
    have "\<not> subseq [123, 125] ?t1"
    proof
      assume "subseq [123, 125] ?t1"
      moreover have "subseq ?t1 txt" by (rule subseq_filter_left)
      ultimately have "subseq [123, 125] txt" by (rule subseq_order.order_trans)
      with no show False by simp
    qed
    then have "brace_span ?t1 = []" by (rule brace_span_needs_pair)
    with general show "clean_response_text txt = []" by simp
  qed
  from general example empty show ?thesis by blast
qed

theorem clean_response_text_brace_span_witness:
  "\<not> subseq [123, 125] (ustr ''no braces } here {'')
   \<and> clean_response_text (ustr ''no braces } here {'') = []"
proof -
  have "\<not> subseq [123, 125] (ustr ''no braces } here {'')" by (simp add: ustr_def)
  with clean_response_text_brace_span [of "ustr ''no braces } here {''"] show ?thesis by blast
qed

section \<open>Counting chapters in the manifest builders\<close>

lemma sum_list_insort_key:
  "sum_list (map f (insort_key k x xs)) = (f x :: nat) + sum_list (map f xs)"
  by (induction xs) auto

lemma sum_list_sort_key: "sum_list (map f (sort_key k xs)) = (sum_list (map f xs) :: nat)"
  by (induction xs) (auto simp: sum_list_insort_key)

lemma sort_sections_keeps:
  "sum_list (map chapterCount (sort_sections ss)) = sum_list (map chapterCount ss)"
  "set (sort_sections ss) = set ss"
  by (simp_all add: sort_sections_def sum_list_sort_key)

lemma counts_agree_sort:
  "counts_agree m \<Longrightarrow> counts_agree (m\<lparr>sections := sort_sections (sections m)\<rparr>)"
  by (simp add: counts_agree_def sort_sections_keeps list_all_iff)

lemma counts_agree_add:
  assumes "counts_agree m" and "tally + length chs0 = totalChapters m + length chs"
    and "chs0 = []"
  shows "counts_agree
     (m\<lparr>totalChapters := tally,
        sections := sections m @
          [\<lparr>sectionId = i, sectionName = n, sectionNameEnglish = e,
            chapterCount = length (sort_key chapterNumber chs),
            chapters = sort_key chapterNumber chs\<rparr>]\<rparr>)"
  using assms by (simp add: counts_agree_def)

lemma caraka_pdf_loop_count:
  "caraka_pdf_loop sid sn fs (chs, tally) = (chs', tally')
   \<Longrightarrow> tally' + length chs = tally + length chs'"
proof (induction fs arbitrary: chs tally)
  case Nil
  then show ?case by simp
next
  case (Cons f fs)
  show ?case
  proof (cases "chapter_number_of (stem f)")
    case None
    with Cons.prems have "caraka_pdf_loop sid sn fs (chs, tally) = (chs', tally')" by simp
    then show ?thesis by (rule Cons.IH)
  next
    case (Some n)
    with Cons.prems have "caraka_pdf_loop sid sn fs
        (chs @ [caraka_chapter_entry sid sn f n], tally + 1) = (chs', tally')" by simp
    from Cons.IH [OF this] show ?thesis by simp
  qed
qed

lemma sushruta_pdf_loop_count:
  "sushruta_pdf_loop fname fs (chs, tally) = (chs', tally')
   \<Longrightarrow> tally' + length chs = tally + length chs'"
proof (induction fs arbitrary: chs tally)
  case Nil
  then show ?case by simp
next
  case (Cons f fs)
  show ?case
  proof (cases "chapter_number_of (stem f)")
    case None
    with Cons.prems have "sushruta_pdf_loop fname fs (chs, tally) = (chs', tally')" by simp
    then show ?thesis by (rule Cons.IH)
  next
    case (Some n)
    with Cons.prems have "sushruta_pdf_loop fname fs
        (chs @ [sushruta_chapter_entry fname f n], tally + 1) = (chs', tally')" by simp
    from Cons.IH [OF this] show ?thesis by simp
  qed
qed

lemma caraka_section_loop_counts:
  "counts_agree m \<Longrightarrow> counts_agree (caraka_section_loop sid ds m)"
proof (induction ds arbitrary: m)
  case Nil
  then show ?case by simp
next
  case (Cons d ds)
  let ?files = "sort_key pdf_name (pdf_files d)"
  show ?case
  proof (cases "?files = []")
    case True
    with Cons show ?thesis by (simp add: Let_def)
  next
    case False
    obtain chs tally where st:
      "caraka_pdf_loop sid (folder_name d) ?files ([], totalChapters m) = (chs, tally)"
      by (cases "caraka_pdf_loop sid (folder_name d) ?files ([], totalChapters m)")
    from caraka_pdf_loop_count [OF st]
    have "tally + length ([] :: chapter_entry list) = totalChapters m + length chs" by simp
    from counts_agree_add [OF Cons.prems this refl]
    show ?thesis using False st by (simp add: Let_def Cons.IH)
  qed
qed

lemma sushruta_section_loop_counts:
  "counts_agree m \<Longrightarrow> counts_agree (sushruta_section_loop ds m)"
proof (induction ds arbitrary: m)
  case Nil
  then show ?case by simp
next
  case (Cons d ds)
  let ?files = "sort_key pdf_name (pdf_files d)"
  obtain chs tally where st:
    "sushruta_pdf_loop (folder_name d) ?files ([], totalChapters m) = (chs, tally)"
    by (cases "sushruta_pdf_loop (folder_name d) ?files ([], totalChapters m)")
  from sushruta_pdf_loop_count [OF st]
  have "tally + length ([] :: chapter_entry list) = totalChapters m + length chs" by simp
  from counts_agree_add [OF Cons.prems this refl]
  show ?case using st by (simp add: Let_def Cons.IH)
qed

lemma counts_agree_empty:
  "counts_agree \<lparr>scriptureId = a, scriptureName = b, totalChapters = 0, lastUpdated = c,
     sections = []\<rparr>"
  by (simp add: counts_agree_def)
lemma caraka_manifest_counts:
  assumes "generate_chapter_manifest root scripture_id scripture_name now = Some m"
  shows "counts_agree m"
proof -
  from assms obtain dirs where
    m: "m = (caraka_section_loop scripture_id (sort_key folder_name dirs)
              \<lparr>scriptureId = scripture_id, scriptureName = scripture_name,
               totalChapters = 0, lastUpdated = now @ ustr ''Z'', sections = []\<rparr>)
            \<lparr>sections := sort_sections (sections
              (caraka_section_loop scripture_id (sort_key folder_name dirs)
              \<lparr>scriptureId = scripture_id, scriptureName = scripture_name,
               totalChapters = 0, lastUpdated = now @ ustr ''Z'', sections = []\<rparr>))\<rparr>"
    by (auto simp: generate_chapter_manifest_def Let_def split: option.splits if_splits)
  show "counts_agree m"
    unfolding m by (intro counts_agree_sort caraka_section_loop_counts counts_agree_empty)
qed

lemma sushruta_manifest_counts:
  assumes "sushruta_main root now = Some m"
  shows "counts_agree m"
proof -
  from assms obtain dirs where
    m: "m = (sushruta_section_loop (sort_key folder_name dirs)
              \<lparr>scriptureId = sushruta_id, scriptureName = sushruta_name,
               totalChapters = 0, lastUpdated = now @ ustr ''Z'', sections = []\<rparr>)
            \<lparr>sections := sort_sections (sections
              (sushruta_section_loop (sort_key folder_name dirs)
              \<lparr>scriptureId = sushruta_id, scriptureName = sushruta_name,
               totalChapters = 0, lastUpdated = now @ ustr ''Z'', sections = []\<rparr>))\<rparr>"
    by (auto simp: sushruta_main_def Let_def split: option.splits)
  show "counts_agree m"
    unfolding m by (intro counts_agree_sort sushruta_section_loop_counts counts_agree_empty)
qed

section \<open>Evaluating the manifest builders\<close>

lemma not_space_digit [simp]:
  "\<not> int_space 52" "\<not> int_space 49" "\<not> int_space 50" "uni_decimal 52" "uni_decimal 49"
  "uni_decimal 50"
  by (simp_all add: int_space_def int_space_ranges_def uni_decimal_def decimal_ranges_def)

lemma digit_values [simp]: "digit_value 49 = 1" "digit_value 50 = 2" "digit_value 52 = 4"
  by (simp_all add: digit_value_def decimal_ranges_def)

lemmas manifest_eval =
  generate_chapter_manifest_def sushruta_main_def caraka_section_info_def extract_section_info_def
  caraka_chapter_entry_def sushruta_chapter_entry_def chapter_number_of_def sort_sections_def
  caraka_translations_def sushruta_translations_def caraka_bucket_def sushruta_url_root_def
  sushruta_id_def sushruta_name_def pdf_name_def json_name_def
  py_int_def int_strip_def py_split_def py_strip_def py_lstrip_def py_rstrip_def digits_value_def
  str_int_def str_nat.simps ustr_def Let_def

section \<open>The claims about the manifest builders\<close>

text \<open>
  Claim C5.  Whenever the Caraka builder or the Sushruta builder produces a manifest,
  its \<open>totalChapters\<close> is the sum of the \<open>chapterCount\<close> fields of its sections, and
  the \<open>chapterCount\<close> of every section is the length of its \<open>chapters\<close> list.
\<close>

theorem manifest_counts_agree:
  "(generate_chapter_manifest root scripture_id scripture_name now = Some m
      \<longrightarrow> totalChapters m = sum_list (map chapterCount (sections m))
          \<and> (\<forall>s \<in> set (sections m). chapterCount s = length (chapters s)))
   \<and> (sushruta_main root now = Some m
      \<longrightarrow> totalChapters m = sum_list (map chapterCount (sections m))
          \<and> (\<forall>s \<in> set (sections m). chapterCount s = length (chapters s)))"
  using caraka_manifest_counts [of root scripture_id scripture_name now m]
    sushruta_manifest_counts [of root now m]
  by (simp add: counts_agree_def list_all_iff)

theorem manifest_counts_agree_witness:
  "map_option (map chapterCount \<circ> sections) (generate_chapter_manifest
      (Some [\<lparr>folder_name = ustr ''Section_2_Nidanasthanam'',
               pdf_files = [\<lparr>stem = ustr ''B_Chapter_1'', sibling_json = Absent\<rparr>]\<rparr>,
             \<lparr>folder_name = ustr ''Section_1_Sutrasthanam'',
               pdf_files = [\<lparr>stem = ustr ''A_Chapter_2'', sibling_json = Unreadable\<rparr>,
                            \<lparr>stem = ustr ''A_Chapter_1'', sibling_json = Absent\<rparr>,
                            \<lparr>stem = ustr ''notes'', sibling_json = Absent\<rparr>]\<rparr>])
      (ustr ''caraka_samhita'') (ustr ''Caraka'') (ustr ''2025-01-01T00:00:00'')) = Some [2, 1]
   \<and> map_option totalChapters (generate_chapter_manifest
      (Some [\<lparr>folder_name = ustr ''Section_2_Nidanasthanam'',
               pdf_files = [\<lparr>stem = ustr ''B_Chapter_1'', sibling_json = Absent\<rparr>]\<rparr>,
             \<lparr>folder_name = ustr ''Section_1_Sutrasthanam'',
               pdf_files = [\<lparr>stem = ustr ''A_Chapter_2'', sibling_json = Unreadable\<rparr>,
                            \<lparr>stem = ustr ''A_Chapter_1'', sibling_json = Absent\<rparr>,
                            \<lparr>stem = ustr ''notes'', sibling_json = Absent\<rparr>]\<rparr>])
      (ustr ''caraka_samhita'') (ustr ''Caraka'') (ustr ''2025-01-01T00:00:00'')) = Some 3
   \<and> map_option (map chapterCount \<circ> sections) (sushruta_main
      (Some [\<lparr>folder_name = ustr ''Section_2_Nidanasthanam'',
               pdf_files = [\<lparr>stem = ustr ''B_Chapter_1'', sibling_json = Absent\<rparr>]\<rparr>,
             \<lparr>folder_name = ustr ''Section_1_Sutrasthanam'',
               pdf_files = [\<lparr>stem = ustr ''A_Chapter_2'', sibling_json = Unreadable\<rparr>,
                            \<lparr>stem = ustr ''A_Chapter_1'', sibling_json = Absent\<rparr>,
                            \<lparr>stem = ustr ''notes'', sibling_json = Absent\<rparr>]\<rparr>])
      (ustr ''2025-01-01T00:00:00'')) = Some [2, 1]
   \<and> map_option totalChapters (sushruta_main
      (Some [\<lparr>folder_name = ustr ''Section_2_Nidanasthanam'',
               pdf_files = [\<lparr>stem = ustr ''B_Chapter_1'', sibling_json = Absent\<rparr>]\<rparr>,
             \<lparr>folder_name = ustr ''Section_1_Sutrasthanam'',
               pdf_files = [\<lparr>stem = ustr ''A_Chapter_2'', sibling_json = Unreadable\<rparr>,
                            \<lparr>stem = ustr ''A_Chapter_1'', sibling_json = Absent\<rparr>,
                            \<lparr>stem = ustr ''notes'', sibling_json = Absent\<rparr>]\<rparr>])
      (ustr ''2025-01-01T00:00:00'')) = Some 3"
proof -
  let ?root = "Some [\<lparr>folder_name = ustr ''Section_2_Nidanasthanam'',
               pdf_files = [\<lparr>stem = ustr ''B_Chapter_1'', sibling_json = Absent\<rparr>]\<rparr>,
             \<lparr>folder_name = ustr ''Section_1_Sutrasthanam'',
               pdf_files = [\<lparr>stem = ustr ''A_Chapter_2'', sibling_json = Unreadable\<rparr>,
                            \<lparr>stem = ustr ''A_Chapter_1'', sibling_json = Absent\<rparr>,
                            \<lparr>stem = ustr ''notes'', sibling_json = Absent\<rparr>]\<rparr>]"
  let ?c = "generate_chapter_manifest ?root (ustr ''caraka_samhita'') (ustr ''Caraka'')
              (ustr ''2025-01-01T00:00:00'')"
  let ?s = "sushruta_main ?root (ustr ''2025-01-01T00:00:00'')"
  have c: "map_option (map chapterCount \<circ> sections) ?c = Some [2, 1]"
    by (simp add: manifest_eval)
  have s: "map_option (map chapterCount \<circ> sections) ?s = Some [2, 1]"
    by (simp add: manifest_eval)
  from c obtain m where m: "?c = Some m" "map chapterCount (sections m) = [2, 1]" by auto
  from s obtain k where k: "?s = Some k" "map chapterCount (sections k) = [2, 1]" by auto
  have "totalChapters m = sum_list (map chapterCount (sections m))"
    using manifest_counts_agree [of ?root "ustr ''caraka_samhita''" "ustr ''Caraka''"
        "ustr ''2025-01-01T00:00:00''" m] m(1) by blast
  then have tm: "totalChapters m = 3" unfolding m(2) by simp
  have "totalChapters k = sum_list (map chapterCount (sections k))"
    using manifest_counts_agree [of ?root sushruta_id sushruta_name
        "ustr ''2025-01-01T00:00:00''" k] k(1) by blast
  then have tk: "totalChapters k = 3" unfolding k(2) by simp
  from c s m(1) k(1) tm tk show ?thesis by simp
qed
section \<open>Which chapter entries a manifest holds\<close>

lemma entries_append:
  "entries (m\<lparr>totalChapters := t, sections := sections m @ [e]\<rparr>) = entries m \<union> set (chapters e)"
  by (auto simp: entries_def)

lemma caraka_pdf_loop_set:
  "set (fst (caraka_pdf_loop sid sn fs (chs, tally))) =
     set chs \<union> {caraka_chapter_entry sid sn f n | f n.
                  f \<in> set fs \<and> chapter_number_of (stem f) = Some n}"
proof (induction fs arbitrary: chs tally)
  case Nil
  show ?case by simp
next
  case (Cons f fs)
  show ?case
  proof (cases "chapter_number_of (stem f)")
    case None
    then show ?thesis using Cons.IH [of chs tally] by auto
  next
    case (Some n)
    then show ?thesis
      using Cons.IH [of "chs @ [caraka_chapter_entry sid sn f n]" "tally + 1"] by auto
  qed
qed

lemma sushruta_pdf_loop_set:
  "set (fst (sushruta_pdf_loop fname fs (chs, tally))) =
     set chs \<union> {sushruta_chapter_entry fname f n | f n.
                  f \<in> set fs \<and> chapter_number_of (stem f) = Some n}"
proof (induction fs arbitrary: chs tally)
  case Nil
  show ?case by simp
next
  case (Cons f fs)
  show ?case
  proof (cases "chapter_number_of (stem f)")
    case None
    then show ?thesis using Cons.IH [of chs tally] by auto
  next
    case (Some n)
    then show ?thesis
      using Cons.IH [of "chs @ [sushruta_chapter_entry fname f n]" "tally + 1"] by auto
  qed
qed

lemma ramayana_pdf_loop_set:
  "set (fst (ramayana_pdf_loop kname fs (chs, tally))) =
     set chs \<union> {ramayana_chapter_entry kname f n | f n.
                  f \<in> set fs \<and> extract_chapter_number (pdf_name f) = Some n}"
proof (induction fs arbitrary: chs tally)
  case Nil
  show ?case by simp
next
  case (Cons f fs)
  show ?case
  proof (cases "extract_chapter_number (pdf_name f)")
    case None
    then show ?thesis using Cons.IH [of chs tally] by auto
  next
    case (Some n)
    then show ?thesis
      using Cons.IH [of "chs @ [ramayana_chapter_entry kname f n]" "tally + 1"] by auto
  qed
qed

lemma no_files_no_entries:
  assumes "sort_key pdf_name (pdf_files d) = []"
  shows "caraka_folder_entries sid d = {}" and "ramayana_folder_entries d = {}"
proof -
  from assms have "pdf_files d = []" by (metis length_0_conv length_sort)
  then show "caraka_folder_entries sid d = {}" and "ramayana_folder_entries d = {}"
    by (simp_all add: caraka_folder_entries_def ramayana_folder_entries_def)
qed

lemma caraka_section_loop_entries:
  "entries (caraka_section_loop sid ds m) =
     entries m \<union> (\<Union>d \<in> set ds. caraka_folder_entries sid d)"
proof (induction ds arbitrary: m)
  case Nil
  show ?case by simp
next
  case (Cons d ds)
  let ?files = "sort_key pdf_name (pdf_files d)"
  show ?case
  proof (cases "?files = []")
    case True
    have step: "caraka_section_loop sid (d # ds) m = caraka_section_loop sid ds m"
      using True by (simp add: Let_def)
    have e: "caraka_folder_entries sid d = {}" by (rule no_files_no_entries(1) [OF True])
    show ?thesis unfolding step Cons.IH by (simp add: e)
  next
    case False
    have new: "set (fst (caraka_pdf_loop sid (folder_name d) ?files ([], totalChapters m)))
          = caraka_folder_entries sid d"
      by (simp add: caraka_pdf_loop_set caraka_folder_entries_def)
    show ?thesis
      using False by (simp add: Let_def Cons.IH entries_append new Un_assoc)
  qed
qed

lemma sushruta_section_loop_entries:
  "entries (sushruta_section_loop ds m) =
     entries m \<union> (\<Union>d \<in> set ds. sushruta_folder_entries d)"
proof (induction ds arbitrary: m)
  case Nil
  show ?case by simp
next
  case (Cons d ds)
  let ?files = "sort_key pdf_name (pdf_files d)"
  have new: "set (fst (sushruta_pdf_loop (folder_name d) ?files ([], totalChapters m)))
        = sushruta_folder_entries d"
    by (simp add: sushruta_pdf_loop_set sushruta_folder_entries_def)
  show ?case
    by (simp add: Let_def Cons.IH entries_append new Un_assoc)
qed

lemma ramayana_kanda_loop_entries:
  "entries (ramayana_kanda_loop ds m) =
     entries m \<union> (\<Union>d \<in> set ds. ramayana_folder_entries d)"
proof (induction ds arbitrary: m)
  case Nil
  show ?case by simp
next
  case (Cons d ds)
  let ?files = "sort_key pdf_name (pdf_files d)"
  show ?case
  proof (cases "extract_kanda_info (folder_name d)")
    case None
    then have e: "ramayana_folder_entries d = {}" by (simp add: ramayana_folder_entries_def)
    have step: "ramayana_kanda_loop (d # ds) m = ramayana_kanda_loop ds m" using None by simp
    show ?thesis unfolding step Cons.IH by (simp add: e)
  next
    case (Some info)
    show ?thesis
    proof (cases "?files = []")
      case True
      have step: "ramayana_kanda_loop (d # ds) m = ramayana_kanda_loop ds m"
        using True Some by (simp add: Let_def)
      have e: "ramayana_folder_entries d = {}" by (rule no_files_no_entries(2) [OF True])
      show ?thesis unfolding step Cons.IH by (simp add: e)
    next
      case False
      have new: "set (fst (ramayana_pdf_loop (folder_name d) ?files ([], totalChapters m)))
            = ramayana_folder_entries d"
        using Some by (simp add: ramayana_pdf_loop_set ramayana_folder_entries_def)
      show ?thesis
        using False Some by (simp add: Let_def Cons.IH entries_append new Un_assoc)
    qed
  qed
qed

lemma caraka_manifest_entries:
  assumes "generate_chapter_manifest (Some dirs) scripture_id scripture_name now = Some m"
  shows "entries m = (\<Union>d \<in> set dirs. caraka_folder_entries scripture_id d)"
proof -
  let ?m0 = "\<lparr>scriptureId = scripture_id, scriptureName = scripture_name,
               totalChapters = 0, lastUpdated = now @ ustr ''Z'', sections = []\<rparr>"
  let ?m1 = "caraka_section_loop scripture_id (sort_key folder_name dirs) ?m0"
  from assms have m: "m = ?m1\<lparr>sections := sort_sections (sections ?m1)\<rparr>"
    by (auto simp: generate_chapter_manifest_def Let_def split: if_splits)
  have "entries m = entries ?m1"
    unfolding m by (simp add: entries_def sort_sections_keeps)
  moreover have "entries ?m0 = {}" by (simp add: entries_def)
  ultimately show ?thesis by (simp add: caraka_section_loop_entries)
qed

lemma sushruta_manifest_entries:
  assumes "sushruta_main (Some dirs) now = Some m"
  shows "entries m = (\<Union>d \<in> set dirs. sushruta_folder_entries d)"
proof -
  let ?m0 = "\<lparr>scriptureId = sushruta_id, scriptureName = sushruta_name,
               totalChapters = 0, lastUpdated = now @ ustr ''Z'', sections = []\<rparr>"
  let ?m1 = "sushruta_section_loop (sort_key folder_name dirs) ?m0"
  from assms have m: "m = ?m1\<lparr>sections := sort_sections (sections ?m1)\<rparr>"
    by (auto simp: sushruta_main_def Let_def)
  have "entries m = entries ?m1"
    unfolding m by (simp add: entries_def sort_sections_keeps)
  moreover have "entries ?m0 = {}" by (simp add: entries_def)
  ultimately show ?thesis by (simp add: sushruta_section_loop_entries)
qed

lemma ramayana_manifest_entries:
  assumes "ramayana_generate_chapter_manifest (Some dirs) now = Inr (Some m)"
  shows "entries m =
     (\<Union>d \<in> {d \<in> set dirs. re_match kanda_folder_pattern (folder_name d) \<noteq> None}.
        ramayana_folder_entries d)"
proof -
  let ?m0 = "\<lparr>scriptureId = ustr ''ramayana_valmiki'',
               scriptureName = ustr ''Ramayana by Valmiki'',
               totalChapters = 0, lastUpdated = now @ ustr ''Z'', sections = []\<rparr>"
  let ?ds = "sort_key kanda_sort_key
               (filter (\<lambda>d. re_match kanda_folder_pattern (folder_name d) \<noteq> None) dirs)"
  let ?m1 = "ramayana_kanda_loop ?ds ?m0"
  from assms have m: "m = ?m1\<lparr>sections :=
      sort_key (\<lambda>s. the (py_int (sectionId s))) (sections ?m1)\<rparr>"
    by (auto simp: ramayana_generate_chapter_manifest_def Let_def split: if_splits)
  have "entries m = entries ?m1"
    unfolding m by (simp add: entries_def)
  moreover have "entries ?m0 = {}" by (simp add: entries_def)
  ultimately show ?thesis by (simp add: ramayana_kanda_loop_entries)
qed

lemma caraka_example:
  "generate_chapter_manifest
     (Some [\<lparr>folder_name = ustr ''Section_1_Sutrasthanam'',
              pdf_files = [\<lparr>stem = ustr ''X_Chapter_4'',
                 sibling_json = Loaded (JObj [(ustr ''chapterTitle'',
                                               JStr (ustr ''Quest for longevity''))])\<rparr>]\<rparr>])
     (ustr ''caraka_samhita'') (ustr ''Caraka Samhita'') (ustr ''2025-01-01T00:00:00'')
   = Some \<lparr>scriptureId = ustr ''caraka_samhita'', scriptureName = ustr ''Caraka Samhita'',
       totalChapters = 1, lastUpdated = ustr ''2025-01-01T00:00:00Z'',
       sections =
         [\<lparr>sectionId = ustr ''1'', sectionName = ustr ''Sutrasthanam'',
           sectionNameEnglish = ustr ''Foundational Principles'', chapterCount = 1,
           chapters =
             [\<lparr>chapterId = ustr ''4'', chapterNumber = 4,
               title = JStr (ustr ''Chapter 4''), titleEnglish = JStr [],
               metadataUrl = ustr ''gs://mygurukul-library/metadata/chapters/caraka_samhita/Section_1_Sutrasthanam/X_Chapter_4.json'',
               pdfUrl = ustr ''gs://mygurukul-library/pdfs/caraka_samhita/Section_1_Sutrasthanam/X_Chapter_4.pdf'',
               hasMetadata = True\<rparr>]\<rparr>]\<rparr>"
  by (simp add: manifest_eval)

lemmas ramayana_eval =
  ramayana_generate_chapter_manifest_def kanda_folder_pattern_def kanda_sort_key_def
  extract_kanda_info_def extract_chapter_number_def derive_fallback_title_def
  ramayana_chapter_entry_def ramayana_title_def ramayana_url_root_def last_group_def
  chapter_word_def roman_class_def roman_upper_def roman_to_int_def any_char_def path_stem_def
  cons_first_def re_sub_del_def re_match_def py_find_def py_rfind_def lit_ic_def in_class_def
  uni_space_def space_ranges_def uni_decimal_def decimal_ranges_def
  int_space_def int_space_ranges_def digit_value_def
  pdf_name_def json_name_def py_int_def int_strip_def py_strip_def py_lstrip_def py_rstrip_def
  digits_value_def str_int_def str_nat.simps ustr_def Let_def

text \<open>
  Claim C2.  As stated (every builder takes the title from the sibling JSON whenever
  that file exists, and the fallback only when it is absent) the claim fails.  The
  Caraka builder gives a chapter whose sibling JSON exists and holds a
  \<open>chapterTitle\<close> the title \<^verbatim>\<open>Chapter 4\<close>; and the Ramayana builder gives a chapter
  whose sibling JSON exists without that key the fallback title.
\<close>

theorem title_not_always_from_sibling:
  "generate_chapter_manifest
     (Some [\<lparr>folder_name = ustr ''Section_1_Sutrasthanam'',
              pdf_files = [\<lparr>stem = ustr ''X_Chapter_4'',
                 sibling_json = Loaded (JObj [(ustr ''chapterTitle'',
                                               JStr (ustr ''Quest for longevity''))])\<rparr>]\<rparr>])
     (ustr ''caraka_samhita'') (ustr ''Caraka Samhita'') (ustr ''2025-01-01T00:00:00'')
   = Some \<lparr>scriptureId = ustr ''caraka_samhita'', scriptureName = ustr ''Caraka Samhita'',
       totalChapters = 1, lastUpdated = ustr ''2025-01-01T00:00:00Z'',
       sections =
         [\<lparr>sectionId = ustr ''1'', sectionName = ustr ''Sutrasthanam'',
           sectionNameEnglish = ustr ''Foundational Principles'', chapterCount = 1,
           chapters =
             [\<lparr>chapterId = ustr ''4'', chapterNumber = 4,
               title = JStr (ustr ''Chapter 4''), titleEnglish = JStr [],
               metadataUrl = ustr ''gs://mygurukul-library/metadata/chapters/caraka_samhita/Section_1_Sutrasthanam/X_Chapter_4.json'',
               pdfUrl = ustr ''gs://mygurukul-library/pdfs/caraka_samhita/Section_1_Sutrasthanam/X_Chapter_4.pdf'',
               hasMetadata = True\<rparr>]\<rparr>]\<rparr>
   \<and> JStr (ustr ''Chapter 4'') \<noteq> JStr (ustr ''Quest for longevity'')
   \<and> title (ramayana_chapter_entry (ustr ''1. Bala Kanda'')
         \<lparr>stem = ustr ''CHAPTER 1 Narada'',
           sibling_json = Loaded (JObj [(ustr ''aiSummary'', JStr (ustr ''text''))])\<rparr>
         1) = JStr (ustr ''Narada'')
   \<and> hasMetadata (ramayana_chapter_entry (ustr ''1. Bala Kanda'')
         \<lparr>stem = ustr ''CHAPTER 1 Narada'',
           sibling_json = Loaded (JObj [(ustr ''aiSummary'', JStr (ustr ''text''))])\<rparr>
         1)"
  using caraka_example
  by (simp add: ramayana_eval)

text \<open>
  Claim C2, amended.  In the Ramayana builder the title of a chapter is the value of
  \<open>chapterTitle\<close> in the sibling JSON when that file exists, loads as an object and
  has the key; it is the fallback derived from the file name when the key is missing,
  when the file cannot be read as an object, and when the file is absent.  In the
  Caraka and Sushruta builders the title of every chapter is \<^verbatim>\<open>Chapter n\<close> for its
  chapter number \<open>n\<close>, whether or not the sibling JSON exists; there the sibling file
  only sets \<open>hasMetadata\<close>.  For each builder this is said twice: every file that the
  builder takes up has such an entry in the manifest, and every entry of the manifest
  is the entry of such a file.
\<close>

theorem chapter_title_source:
  "(generate_chapter_manifest (Some dirs) scripture_id scripture_name now = Some m \<longrightarrow>
      (\<forall>d \<in> set dirs. \<forall>f \<in> set (pdf_files d). \<forall>n. chapter_number_of (stem f) = Some n \<longrightarrow>
         (\<exists>s \<in> set (sections m). \<exists>c \<in> set (chapters s).
            chapterNumber c = n
            \<and> pdfUrl c = caraka_bucket @ ustr ''/pdfs/'' @ scripture_id @ ustr ''/''
                         @ folder_name d @ ustr ''/'' @ pdf_name f
            \<and> title c = JStr (ustr ''Chapter '' @ str_int n)
            \<and> hasMetadata c = (sibling_json f \<noteq> Absent)))
      \<and> (\<forall>s \<in> set (sections m). \<forall>c \<in> set (chapters s).
           \<exists>d \<in> set dirs. \<exists>f \<in> set (pdf_files d).
             chapter_number_of (stem f) = Some (chapterNumber c)
             \<and> pdfUrl c = caraka_bucket @ ustr ''/pdfs/'' @ scripture_id @ ustr ''/''
                          @ folder_name d @ ustr ''/'' @ pdf_name f
             \<and> title c = JStr (ustr ''Chapter '' @ str_int (chapterNumber c))
             \<and> hasMetadata c = (sibling_json f \<noteq> Absent)))
   \<and> (sushruta_main (Some dirs) now = Some m \<longrightarrow>
      (\<forall>d \<in> set dirs. \<forall>f \<in> set (pdf_files d). \<forall>n. chapter_number_of (stem f) = Some n \<longrightarrow>
         (\<exists>s \<in> set (sections m). \<exists>c \<in> set (chapters s).
            chapterNumber c = n
            \<and> pdfUrl c = sushruta_url_root @ ustr ''/'' @ folder_name d @ ustr ''/'' @ pdf_name f
            \<and> title c = JStr (ustr ''Chapter '' @ str_int n)
            \<and> hasMetadata c = (sibling_json f \<noteq> Absent)))
      \<and> (\<forall>s \<in> set (sections m). \<forall>c \<in> set (chapters s).
           \<exists>d \<in> set dirs. \<exists>f \<in> set (pdf_files d).
             chapter_number_of (stem f) = Some (chapterNumber c)
             \<and> pdfUrl c = sushruta_url_root @ ustr ''/'' @ folder_name d @ ustr ''/'' @ pdf_name f
             \<and> title c = JStr (ustr ''Chapter '' @ str_int (chapterNumber c))
             \<and> hasMetadata c = (sibling_json f \<noteq> Absent)))
   \<and> (ramayana_generate_chapter_manifest (Some dirs) now = Inr (Some m) \<longrightarrow>
      (\<forall>d \<in> set dirs. \<forall>f \<in> set (pdf_files d). \<forall>n.
         re_match kanda_folder_pattern (folder_name d) \<noteq> None
         \<and> extract_kanda_info (folder_name d) \<noteq> None
         \<and> extract_chapter_number (pdf_name f) = Some n \<longrightarrow>
         (\<exists>s \<in> set (sections m). \<exists>c \<in> set (chapters s).
            chapterNumber c = n
            \<and> pdfUrl c = ramayana_url_root @ ustr ''/'' @ folder_name d @ ustr ''/'' @ pdf_name f
            \<and> (\<forall>ms t. sibling_json f = Loaded (JObj ms)
                  \<and> map_of ms (ustr ''chapterTitle'') = Some t \<longrightarrow> title c = t)
            \<and> (\<forall>ms. sibling_json f = Loaded (JObj ms)
                  \<and> map_of ms (ustr ''chapterTitle'') = None
                  \<longrightarrow> title c = JStr (derive_fallback_title (pdf_name f)))
            \<and> ((\<forall>ms. sibling_json f \<noteq> Loaded (JObj ms))
                  \<longrightarrow> title c = JStr (derive_fallback_title (pdf_name f)))
            \<and> hasMetadata c = (\<exists>ms. sibling_json f = Loaded (JObj ms))))
      \<and> (\<forall>s \<in> set (sections m). \<forall>c \<in> set (chapters s).
           \<exists>d \<in> set dirs. \<exists>f \<in> set (pdf_files d).
             extract_chapter_number (pdf_name f) = Some (chapterNumber c)
             \<and> pdfUrl c = ramayana_url_root @ ustr ''/'' @ folder_name d @ ustr ''/'' @ pdf_name f
             \<and> (\<forall>ms t. sibling_json f = Loaded (JObj ms)
                   \<and> map_of ms (ustr ''chapterTitle'') = Some t \<longrightarrow> title c = t)
             \<and> (\<forall>ms. sibling_json f = Loaded (JObj ms)
                   \<and> map_of ms (ustr ''chapterTitle'') = None
                   \<longrightarrow> title c = JStr (derive_fallback_title (pdf_name f)))
             \<and> ((\<forall>ms. sibling_json f \<noteq> Loaded (JObj ms))
                   \<longrightarrow> title c = JStr (derive_fallback_title (pdf_name f)))
             \<and> hasMetadata c = (\<exists>ms. sibling_json f = Loaded (JObj ms))))"
proof -
  have rama: "\<And>k f n.
      chapterNumber (ramayana_chapter_entry k f n) = n
      \<and> pdfUrl (ramayana_chapter_entry k f n)
          = ramayana_url_root @ ustr ''/'' @ k @ ustr ''/'' @ pdf_name f
      \<and> (\<forall>ms t. sibling_json f = Loaded (JObj ms)
            \<and> map_of ms (ustr ''chapterTitle'') = Some t
            \<longrightarrow> title (ramayana_chapter_entry k f n) = t)
      \<and> (\<forall>ms. sibling_json f = Loaded (JObj ms)
            \<and> map_of ms (ustr ''chapterTitle'') = None
            \<longrightarrow> title (ramayana_chapter_entry k f n) = JStr (derive_fallback_title (pdf_name f)))
      \<and> ((\<forall>ms. sibling_json f \<noteq> Loaded (JObj ms))
            \<longrightarrow> title (ramayana_chapter_entry k f n) = JStr (derive_fallback_title (pdf_name f)))
      \<and> hasMetadata (ramayana_chapter_entry k f n) = (\<exists>ms. sibling_json f = Loaded (JObj ms))"
    by (auto simp: ramayana_chapter_entry_def ramayana_title_def Let_def
        split: sibling.splits json.splits option.splits)
  have caraka: "generate_chapter_manifest (Some dirs) scripture_id scripture_name now = Some m
      \<Longrightarrow> entries m = (\<Union>d \<in> set dirs. caraka_folder_entries scripture_id d)"
    by (rule caraka_manifest_entries)
  have sushruta: "sushruta_main (Some dirs) now = Some m
      \<Longrightarrow> entries m = (\<Union>d \<in> set dirs. sushruta_folder_entries d)"
    by (rule sushruta_manifest_entries)
  have ramayana: "ramayana_generate_chapter_manifest (Some dirs) now = Inr (Some m)
      \<Longrightarrow> entries m =
        (\<Union>d \<in> {d \<in> set dirs. re_match kanda_folder_pattern (folder_name d) \<noteq> None}.
           ramayana_folder_entries d)"
    by (rule ramayana_manifest_entries)
  show ?thesis
  proof (intro conjI impI ballI allI)
    fix d f n
    assume g: "generate_chapter_manifest (Some dirs) scripture_id scripture_name now = Some m"
      and d: "d \<in> set dirs" and f: "f \<in> set (pdf_files d)"
      and n: "chapter_number_of (stem f) = Some n"
    have "caraka_chapter_entry scripture_id (folder_name d) f n \<in> entries m"
      unfolding caraka [OF g] caraka_folder_entries_def using d f n by blast
    then obtain s where s: "s \<in> set (sections m)"
      "caraka_chapter_entry scripture_id (folder_name d) f n \<in> set (chapters s)"
      unfolding entries_def by blast
    have "chapterNumber (caraka_chapter_entry scripture_id (folder_name d) f n) = n
        \<and> pdfUrl (caraka_chapter_entry scripture_id (folder_name d) f n)
            = caraka_bucket @ ustr ''/pdfs/'' @ scripture_id @ ustr ''/''
              @ folder_name d @ ustr ''/'' @ pdf_name f
        \<and> title (caraka_chapter_entry scripture_id (folder_name d) f n)
            = JStr (ustr ''Chapter '' @ str_int n)
        \<and> hasMetadata (caraka_chapter_entry scripture_id (folder_name d) f n)
            = (sibling_json f \<noteq> Absent)"
      by (simp add: caraka_chapter_entry_def)
    with s show "\<exists>s \<in> set (sections m). \<exists>c \<in> set (chapters s).
            chapterNumber c = n
            \<and> pdfUrl c = caraka_bucket @ ustr ''/pdfs/'' @ scripture_id @ ustr ''/''
                         @ folder_name d @ ustr ''/'' @ pdf_name f
            \<and> title c = JStr (ustr ''Chapter '' @ str_int n)
            \<and> hasMetadata c = (sibling_json f \<noteq> Absent)"
      by blast
  next
    fix s c
    assume g: "generate_chapter_manifest (Some dirs) scripture_id scripture_name now = Some m"
      and s: "s \<in> set (sections m)" and c: "c \<in> set (chapters s)"
    then have "c \<in> entries m" unfolding entries_def by blast
    then obtain d f n where d: "d \<in> set dirs" "f \<in> set (pdf_files d)"
      "chapter_number_of (stem f) = Some n"
      and e: "c = caraka_chapter_entry scripture_id (folder_name d) f n"
      unfolding caraka [OF g] caraka_folder_entries_def by blast
    have "chapter_number_of (stem f) = Some (chapterNumber c)
        \<and> pdfUrl c = caraka_bucket @ ustr ''/pdfs/'' @ scripture_id @ ustr ''/''
                     @ folder_name d @ ustr ''/'' @ pdf_name f
        \<and> title c = JStr (ustr ''Chapter '' @ str_int (chapterNumber c))
        \<and> hasMetadata c = (sibling_json f \<noteq> Absent)"
      unfolding e using d(3) by (simp add: caraka_chapter_entry_def)
    with d show "\<exists>d \<in> set dirs. \<exists>f \<in> set (pdf_files d).
             chapter_number_of (stem f) = Some (chapterNumber c)
             \<and> pdfUrl c = caraka_bucket @ ustr ''/pdfs/'' @ scripture_id @ ustr ''/''
                          @ folder_name d @ ustr ''/'' @ pdf_name f
             \<and> title c = JStr (ustr ''Chapter '' @ str_int (chapterNumber c))
             \<and> hasMetadata c = (sibling_json f \<noteq> Absent)"
      by blast
  next
    fix d f n
    assume g: "sushruta_main (Some dirs) now = Some m"
      and d: "d \<in> set dirs" and f: "f \<in> set (pdf_files d)"
      and n: "chapter_number_of (stem f) = Some n"
    have "sushruta_chapter_entry (folder_name d) f n \<in> entries m"
      unfolding sushruta [OF g] sushruta_folder_entries_def using d f n by blast
    then obtain s where s: "s \<in> set (sections m)"
      "sushruta_chapter_entry (folder_name d) f n \<in> set (chapters s)"
      unfolding entries_def by blast
    have "chapterNumber (sushruta_chapter_entry (folder_name d) f n) = n
        \<and> pdfUrl (sushruta_chapter_entry (folder_name d) f n)
            = sushruta_url_root @ ustr ''/'' @ folder_name d @ ustr ''/'' @ pdf_name f
        \<and> title (sushruta_chapter_entry (folder_name d) f n)
            = JStr (ustr ''Chapter '' @ str_int n)
        \<and> hasMetadata (sushruta_chapter_entry (folder_name d) f n)
            = (sibling_json f \<noteq> Absent)"
      by (simp add: sushruta_chapter_entry_def)
    with s show "\<exists>s \<in> set (sections m). \<exists>c \<in> set (chapters s).
            chapterNumber c = n
            \<and> pdfUrl c = sushruta_url_root @ ustr ''/'' @ folder_name d @ ustr ''/'' @ pdf_name f
            \<and> title c = JStr (ustr ''Chapter '' @ str_int n)
            \<and> hasMetadata c = (sibling_json f \<noteq> Absent)"
      by blast
  next
    fix s c
    assume g: "sushruta_main (Some dirs) now = Some m"
      and s: "s \<in> set (sections m)" and c: "c \<in> set (chapters s)"
    then have "c \<in> entries m" unfolding entries_def by blast
    then obtain d f n where d: "d \<in> set dirs" "f \<in> set (pdf_files d)"
      "chapter_number_of (stem f) = Some n"
      and e: "c = sushruta_chapter_entry (folder_name d) f n"
      unfolding sushruta [OF g] sushruta_folder_entries_def by blast
    have "chapter_number_of (stem f) = Some (chapterNumber c)
        \<and> pdfUrl c = sushruta_url_root @ ustr ''/'' @ folder_name d @ ustr ''/'' @ pdf_name f
        \<and> title c = JStr (ustr ''Chapter '' @ str_int (chapterNumber c))
        \<and> hasMetadata c = (sibling_json f \<noteq> Absent)"
      unfolding e using d(3) by (simp add: sushruta_chapter_entry_def)
    with d show "\<exists>d \<in> set dirs. \<exists>f \<in> set (pdf_files d).
             chapter_number_of (stem f) = Some (chapterNumber c)
             \<and> pdfUrl c = sushruta_url_root @ ustr ''/'' @ folder_name d @ ustr ''/'' @ pdf_name f
             \<and> title c = JStr (ustr ''Chapter '' @ str_int (chapterNumber c))
             \<and> hasMetadata c = (sibling_json f \<noteq> Absent)"
      by blast
  next
    fix d f n
    assume g: "ramayana_generate_chapter_manifest (Some dirs) now = Inr (Some m)"
      and d: "d \<in> set dirs" and f: "f \<in> set (pdf_files d)"
      and n: "re_match kanda_folder_pattern (folder_name d) \<noteq> None
         \<and> extract_kanda_info (folder_name d) \<noteq> None
         \<and> extract_chapter_number (pdf_name f) = Some n"
    have "ramayana_chapter_entry (folder_name d) f n \<in> entries m"
      unfolding ramayana [OF g] ramayana_folder_entries_def using d f n by blast
    then obtain s where s: "s \<in> set (sections m)"
      "ramayana_chapter_entry (folder_name d) f n \<in> set (chapters s)"
      unfolding entries_def by blast
    with rama [of "folder_name d" f n]
    show "\<exists>s \<in> set (sections m). \<exists>c \<in> set (chapters s).
            chapterNumber c = n
            \<and> pdfUrl c = ramayana_url_root @ ustr ''/'' @ folder_name d @ ustr ''/'' @ pdf_name f
            \<and> (\<forall>ms t. sibling_json f = Loaded (JObj ms)
                  \<and> map_of ms (ustr ''chapterTitle'') = Some t \<longrightarrow> title c = t)
            \<and> (\<forall>ms. sibling_json f = Loaded (JObj ms)
                  \<and> map_of ms (ustr ''chapterTitle'') = None
                  \<longrightarrow> title c = JStr (derive_fallback_title (pdf_name f)))
            \<and> ((\<forall>ms. sibling_json f \<noteq> Loaded (JObj ms))
                  \<longrightarrow> title c = JStr (derive_fallback_title (pdf_name f)))
            \<and> hasMetadata c = (\<exists>ms. sibling_json f = Loaded (JObj ms))"
      by blast
  next
    fix s c
    assume g: "ramayana_generate_chapter_manifest (Some dirs) now = Inr (Some m)"
      and s: "s \<in> set (sections m)" and c: "c \<in> set (chapters s)"
    then have "c \<in> entries m" unfolding entries_def by blast
    then obtain d f n where d: "d \<in> set dirs" "f \<in> set (pdf_files d)"
      "extract_chapter_number (pdf_name f) = Some n"
      and e: "c = ramayana_chapter_entry (folder_name d) f n"
      unfolding ramayana [OF g] ramayana_folder_entries_def by blast
    have "extract_chapter_number (pdf_name f) = Some (chapterNumber c)"
      unfolding e using d(3) rama [of "folder_name d" f n] by simp
    with d rama [of "folder_name d" f n]
    show "\<exists>d \<in> set dirs. \<exists>f \<in> set (pdf_files d).
             extract_chapter_number (pdf_name f) = Some (chapterNumber c)
             \<and> pdfUrl c = ramayana_url_root @ ustr ''/'' @ folder_name d @ ustr ''/'' @ pdf_name f
             \<and> (\<forall>ms t. sibling_json f = Loaded (JObj ms)
                   \<and> map_of ms (ustr ''chapterTitle'') = Some t \<longrightarrow> title c = t)
             \<and> (\<forall>ms. sibling_json f = Loaded (JObj ms)
                   \<and> map_of ms (ustr ''chapterTitle'') = None
                   \<longrightarrow> title c = JStr (derive_fallback_title (pdf_name f)))
             \<and> ((\<forall>ms. sibling_json f \<noteq> Loaded (JObj ms))
                   \<longrightarrow> title c = JStr (derive_fallback_title (pdf_name f)))
             \<and> hasMetadata c = (\<exists>ms. sibling_json f = Loaded (JObj ms))"
      unfolding e by blast
  qed
qed

theorem chapter_title_source_witness:
  "(\<exists>m. generate_chapter_manifest
          (Some [\<lparr>folder_name = ustr ''Section_1_Sutrasthanam'',
                   pdf_files = [\<lparr>stem = ustr ''X_Chapter_4'',
                                  sibling_json = Loaded (JObj [(ustr ''chapterTitle'',
                                                   JStr (ustr ''Quest for longevity''))])\<rparr>,
                                \<lparr>stem = ustr ''X_Chapter_2'', sibling_json = Absent\<rparr>]\<rparr>])
          (ustr ''caraka_samhita'') (ustr ''Caraka Samhita'') (ustr ''2025-01-01T00:00:00'')
        = Some m
      \<and> (\<exists>s \<in> set (sections m). \<exists>c \<in> set (chapters s).
            chapterNumber c = 4 \<and> title c = JStr (ustr ''Chapter 4'') \<and> hasMetadata c)
      \<and> (\<exists>s \<in> set (sections m). \<exists>c \<in> set (chapters s).
            chapterNumber c = 2 \<and> title c = JStr (ustr ''Chapter 2'') \<and> \<not> hasMetadata c))
   \<and> (\<exists>m. sushruta_main
          (Some [\<lparr>folder_name = ustr ''Section_1_Sutrasthanam'',
                   pdf_files = [\<lparr>stem = ustr ''X_Chapter_4'',
                                  sibling_json = Loaded (JObj [(ustr ''chapterTitle'',
                                                   JStr (ustr ''Quest for longevity''))])\<rparr>,
                                \<lparr>stem = ustr ''X_Chapter_2'', sibling_json = Absent\<rparr>]\<rparr>])
          (ustr ''2025-01-01T00:00:00'')
        = Some m
      \<and> (\<exists>s \<in> set (sections m). \<exists>c \<in> set (chapters s).
            chapterNumber c = 4 \<and> title c = JStr (ustr ''Chapter 4'') \<and> hasMetadata c)
      \<and> (\<exists>s \<in> set (sections m). \<exists>c \<in> set (chapters s).
            chapterNumber c = 2 \<and> title c = JStr (ustr ''Chapter 2'') \<and> \<not> hasMetadata c))
   \<and> (\<exists>m. ramayana_generate_chapter_manifest
          (Some [\<lparr>folder_name = ustr ''1. Bala Kanda'',
                   pdf_files =
                     [\<lparr>stem = ustr ''CHAPTER 1 Narada'',
                        sibling_json = Loaded (JObj [(ustr ''chapterTitle'',
                                                      JStr (ustr ''Narada speaks''))])\<rparr>,
                      \<lparr>stem = ustr ''CHAPTER 2 The_birth'',
                        sibling_json = Loaded (JObj [(ustr ''aiSummary'', JStr (ustr ''text''))])\<rparr>,
                      \<lparr>stem = ustr ''Chapter 3 Exile'', sibling_json = Absent\<rparr>,
                      \<lparr>stem = ustr ''CHAPTER IV Return'', sibling_json = Loaded (JArr [])\<rparr>]\<rparr>])
          (ustr ''2025-01-01T00:00:00'')
        = Inr (Some m)
      \<and> (\<exists>s \<in> set (sections m). \<exists>c \<in> set (chapters s).
            chapterNumber c = 1 \<and> title c = JStr (ustr ''Narada speaks'') \<and> hasMetadata c)
      \<and> (\<exists>s \<in> set (sections m). \<exists>c \<in> set (chapters s).
            chapterNumber c = 2 \<and> title c = JStr (ustr ''The birth'') \<and> hasMetadata c)
      \<and> (\<exists>s \<in> set (sections m). \<exists>c \<in> set (chapters s).
            chapterNumber c = 3 \<and> title c = JStr (ustr ''Exile'') \<and> \<not> hasMetadata c)
      \<and> (\<exists>s \<in> set (sections m). \<exists>c \<in> set (chapters s).
            chapterNumber c = 4 \<and> title c = JStr (ustr ''Return'') \<and> \<not> hasMetadata c))"
proof -
  let ?now = "ustr ''2025-01-01T00:00:00''"
  let ?f4 = "\<lparr>stem = ustr ''X_Chapter_4'',
               sibling_json = Loaded (JObj [(ustr ''chapterTitle'',
                                             JStr (ustr ''Quest for longevity''))])\<rparr>"
  let ?f2 = "\<lparr>stem = ustr ''X_Chapter_2'', sibling_json = Absent\<rparr>"
  let ?d = "\<lparr>folder_name = ustr ''Section_1_Sutrasthanam'', pdf_files = [?f4, ?f2]\<rparr>"
  let ?m1 = "[(ustr ''chapterTitle'', JStr (ustr ''Narada speaks''))]"
  let ?m2 = "[(ustr ''aiSummary'', JStr (ustr ''text''))]"
  let ?r1 = "\<lparr>stem = ustr ''CHAPTER 1 Narada'', sibling_json = Loaded (JObj ?m1)\<rparr>"
  let ?r2 = "\<lparr>stem = ustr ''CHAPTER 2 The_birth'', sibling_json = Loaded (JObj ?m2)\<rparr>"
  let ?r3 = "\<lparr>stem = ustr ''Chapter 3 Exile'', sibling_json = Absent\<rparr>"
  let ?r4 = "\<lparr>stem = ustr ''CHAPTER IV Return'', sibling_json = Loaded (JArr [])\<rparr>"
  let ?k = "\<lparr>folder_name = ustr ''1. Bala Kanda'', pdf_files = [?r1, ?r2, ?r3, ?r4]\<rparr>"
  have n4: "chapter_number_of (stem ?f4) = Some 4" and n2: "chapter_number_of (stem ?f2) = Some 2"
    by (simp_all add: manifest_eval)
  have s4: "JStr (ustr ''Chapter '' @ str_int 4) = JStr (ustr ''Chapter 4'')"
    and s2: "JStr (ustr ''Chapter '' @ str_int 2) = JStr (ustr ''Chapter 2'')"
    by (simp_all add: str_int_def str_nat.simps ustr_def)
  have "\<exists>m. generate_chapter_manifest (Some [?d]) (ustr ''caraka_samhita'')
      (ustr ''Caraka Samhita'') ?now = Some m"
    by (simp add: manifest_eval)
  then obtain mc where mc: "generate_chapter_manifest (Some [?d]) (ustr ''caraka_samhita'')
      (ustr ''Caraka Samhita'') ?now = Some mc" ..
  have cfw: "\<forall>d \<in> set [?d]. \<forall>f \<in> set (pdf_files d). \<forall>n. chapter_number_of (stem f) = Some n \<longrightarrow>
         (\<exists>s \<in> set (sections mc). \<exists>c \<in> set (chapters s).
            chapterNumber c = n
            \<and> title c = JStr (ustr ''Chapter '' @ str_int n)
            \<and> hasMetadata c = (sibling_json f \<noteq> Absent))"
    using chapter_title_source [where dirs = "[?d]" and scripture_id = "ustr ''caraka_samhita''"
        and scripture_name = "ustr ''Caraka Samhita''" and now = ?now and m = mc] mc
    by blast
  have c4: "\<exists>s \<in> set (sections mc). \<exists>c \<in> set (chapters s).
            chapterNumber c = 4 \<and> title c = JStr (ustr ''Chapter 4'') \<and> hasMetadata c"
    using cfw [rule_format, of ?d ?f4 4] n4 unfolding s4 by simp
  have c2: "\<exists>s \<in> set (sections mc). \<exists>c \<in> set (chapters s).
            chapterNumber c = 2 \<and> title c = JStr (ustr ''Chapter 2'') \<and> \<not> hasMetadata c"
    using cfw [rule_format, of ?d ?f2 2] n2 unfolding s2 by simp
  have "\<exists>m. sushruta_main (Some [?d]) ?now = Some m"
    by (simp add: manifest_eval)
  then obtain ms where ms: "sushruta_main (Some [?d]) ?now = Some ms" ..
  have sfw: "\<forall>d \<in> set [?d]. \<forall>f \<in> set (pdf_files d). \<forall>n. chapter_number_of (stem f) = Some n \<longrightarrow>
         (\<exists>s \<in> set (sections ms). \<exists>c \<in> set (chapters s).
            chapterNumber c = n
            \<and> title c = JStr (ustr ''Chapter '' @ str_int n)
            \<and> hasMetadata c = (sibling_json f \<noteq> Absent))"
    using chapter_title_source [where dirs = "[?d]" and scripture_id = "[]"
        and scripture_name = "[]" and now = ?now and m = ms] ms
    by blast
  have u4: "\<exists>s \<in> set (sections ms). \<exists>c \<in> set (chapters s).
            chapterNumber c = 4 \<and> title c = JStr (ustr ''Chapter 4'') \<and> hasMetadata c"
    using sfw [rule_format, of ?d ?f4 4] n4 unfolding s4 by simp
  have u2: "\<exists>s \<in> set (sections ms). \<exists>c \<in> set (chapters s).
            chapterNumber c = 2 \<and> title c = JStr (ustr ''Chapter 2'') \<and> \<not> hasMetadata c"
    using sfw [rule_format, of ?d ?f2 2] n2 unfolding s2 by simp
  have kf: "re_match kanda_folder_pattern (folder_name ?k) \<noteq> None"
    and ki: "extract_kanda_info (folder_name ?k) \<noteq> None"
    by (simp_all add: ramayana_eval)
  have e1: "extract_chapter_number (pdf_name ?r1) = Some 1"
    and e2: "extract_chapter_number (pdf_name ?r2) = Some 2"
    and e3: "extract_chapter_number (pdf_name ?r3) = Some 3"
    and e4: "extract_chapter_number (pdf_name ?r4) = Some 4"
    by (simp_all add: ramayana_eval)
  have t2: "derive_fallback_title (pdf_name ?r2) = ustr ''The birth''"
    and t3: "derive_fallback_title (pdf_name ?r3) = ustr ''Exile''"
    and t4: "derive_fallback_title (pdf_name ?r4) = ustr ''Return''"
    by (simp_all add: ramayana_eval)
  have "\<exists>m. ramayana_generate_chapter_manifest (Some [?k]) ?now = Inr (Some m)"
    by (simp add: ramayana_eval)
  then obtain mr where mr: "ramayana_generate_chapter_manifest (Some [?k]) ?now = Inr (Some mr)" ..
  have rfw: "\<forall>d \<in> set [?k]. \<forall>f \<in> set (pdf_files d). \<forall>n.
         re_match kanda_folder_pattern (folder_name d) \<noteq> None
         \<and> extract_kanda_info (folder_name d) \<noteq> None
         \<and> extract_chapter_number (pdf_name f) = Some n \<longrightarrow>
         (\<exists>s \<in> set (sections mr). \<exists>c \<in> set (chapters s).
            chapterNumber c = n
            \<and> (\<forall>ms t. sibling_json f = Loaded (JObj ms)
                  \<and> map_of ms (ustr ''chapterTitle'') = Some t \<longrightarrow> title c = t)
            \<and> (\<forall>ms. sibling_json f = Loaded (JObj ms)
                  \<and> map_of ms (ustr ''chapterTitle'') = None
                  \<longrightarrow> title c = JStr (derive_fallback_title (pdf_name f)))
            \<and> ((\<forall>ms. sibling_json f \<noteq> Loaded (JObj ms))
                  \<longrightarrow> title c = JStr (derive_fallback_title (pdf_name f)))
            \<and> hasMetadata c = (\<exists>ms. sibling_json f = Loaded (JObj ms)))"
    using chapter_title_source [where dirs = "[?k]" and scripture_id = "[]"
        and scripture_name = "[]" and now = ?now and m = mr] mr
    by blast
  have h1: "map_of ?m1 (ustr ''chapterTitle'') = Some (JStr (ustr ''Narada speaks''))"
    and h2: "map_of ?m2 (ustr ''chapterTitle'') = None"
    by (simp_all add: ustr_def)
  have r1: "\<exists>s \<in> set (sections mr). \<exists>c \<in> set (chapters s).
            chapterNumber c = 1 \<and> title c = JStr (ustr ''Narada speaks'') \<and> hasMetadata c"
    using rfw [rule_format, of ?k ?r1 1] kf ki e1 h1 by fastforce
  have r2: "\<exists>s \<in> set (sections mr). \<exists>c \<in> set (chapters s).
            chapterNumber c = 2 \<and> title c = JStr (ustr ''The birth'') \<and> hasMetadata c"
    using rfw [rule_format, of ?k ?r2 2] kf ki e2 h2 unfolding t2 by fastforce
  have r3: "\<exists>s \<in> set (sections mr). \<exists>c \<in> set (chapters s).
            chapterNumber c = 3 \<and> title c = JStr (ustr ''Exile'') \<and> \<not> hasMetadata c"
    using rfw [rule_format, of ?k ?r3 3] kf ki e3 unfolding t3 by fastforce
  have r4: "\<exists>s \<in> set (sections mr). \<exists>c \<in> set (chapters s).
            chapterNumber c = 4 \<and> title c = JStr (ustr ''Return'') \<and> \<not> hasMetadata c"
    using rfw [rule_format, of ?k ?r4 4] kf ki e4 unfolding t4 by fastforce
  from mc c4 c2 ms u4 u2 mr r1 r2 r3 r4 show ?thesis by blast
qed

end
